theory Spec2Isabelle
  imports Main "HOL-Library.Multiset"
begin

section \<open>Homepage sections of the store back end (heavy\_main.py)\<close>

text \<open>
  The homepage endpoints \<open>add_homepage_section\<close>, \<open>list_homepage_sections\<close>,
  \<open>edit_homepage_section\<close>, \<open>delete_homepage_section\<close> and \<open>public_homepage\<close> read and
  write three MongoDB collections. The collections are lists of documents in natural
  (insertion) order; every endpoint takes the database and returns its answer together
  with the database it leaves behind, so that a raised \<open>HTTPException\<close> is a value
  \<open>Inl\<close> and the writes made before it stay visible.
\<close>

subsection \<open>Documents\<close>

text \<open>An \<open>ObjectId\<close> is carried as its hexadecimal string (what \<open>str\<close> prints).\<close>

type_synonym oid = string

text \<open>
  A document of \<open>homepage_collection\<close>: \<open>{"_id", "s_no", "category_id", "products"}\<close>.
  The key \<open>_id\<close> is the one the store assigns at \<open>insert_one\<close>.
\<close>

record section_doc =
  doc_id :: nat
  s_no :: int
  category_id :: oid
  products :: "oid list"

record category_doc =
  cat_oid :: oid
  cat_name :: string

text \<open>
  The fields of a product document that the two listings read. Only \<open>name\<close> is read
  with \<open>p["name"]\<close>; the others are read with \<open>p.get\<close>, which gives \<open>None\<close> for a
  missing key. Prices are passed through unchanged and are kept as integers here.
\<close>

record product_doc =
  prod_oid :: oid
  prod_name :: string
  display_image :: "string option"
  hover_image :: "string option"
  selling_price :: "int option"
  mrp :: "int option"
  availability :: "string option"

record db =
  homepage_collection :: "section_doc list"
  category_collection :: "category_doc list"
  product_collection :: "product_doc list"
  next_id :: nat

text \<open>Request bodies \<open>AddHomepageSection\<close> and \<open>EditHomepageSection\<close>.\<close>

record AddHomepageSection =
  add_category_id :: string
  add_product_ids :: "string list"

record EditHomepageSection =
  edit_category_id :: string
  edit_product_ids :: "string list"
  edit_s_no :: "int option"

text \<open>
  A request ends in an answer, in a raised \<open>HTTPException\<close>, or in an
  \<open>OverflowError\<close> of the driver that no handler catches.
\<close>

datatype error = HTTPException int string | OverflowError

text \<open>The decoded token is a dictionary; only its key \<open>sub\<close> is read.\<close>

type_synonym token = "string \<Rightarrow> string option"

text \<open>\<open>not requester\<close>: the key is missing or holds the empty string.\<close>

definition no_requester :: "token \<Rightarrow> bool" where
  "no_requester tok = (case tok ''sub'' of None \<Rightarrow> True | Some r \<Rightarrow> r = [])"

subsection \<open>Collection primitives\<close>

text \<open>\<open>find_one(filter)\<close>: the first document, in natural order, that matches.\<close>

definition find_one :: "('a \<Rightarrow> bool) \<Rightarrow> 'a list \<Rightarrow> 'a option" where
  "find_one flt ds = List.find flt ds"

text \<open>\<open>update_one(filter, {"$set": ...})\<close>: the first matching document is rewritten.\<close>

fun update_one :: "('a \<Rightarrow> bool) \<Rightarrow> ('a \<Rightarrow> 'a) \<Rightarrow> 'a list \<Rightarrow> 'a list" where
  "update_one flt f [] = []"
| "update_one flt f (d # ds) = (if flt d then f d # ds else d # update_one flt f ds)"

text \<open>\<open>delete_one(filter)\<close>: the first matching document is removed; with the count.\<close>

fun delete_one :: "('a \<Rightarrow> bool) \<Rightarrow> 'a list \<Rightarrow> nat \<times> 'a list" where
  "delete_one flt [] = (0, [])"
| "delete_one flt (d # ds) =
     (if flt d then (1, ds) else (case delete_one flt ds of (n, ds') \<Rightarrow> (n, d # ds')))"

text \<open>
  The store keeps an integer in at most eight bytes. The driver raises
  \<open>OverflowError\<close> when it has to encode a larger one, in a filter as in a document,
  and the request never reaches the store. So every stored \<open>s_no\<close> fits, a filter on
  a value that does not fit can match no document, and the model raises where such a
  lookup comes back empty.
\<close>

definition fits_int64 :: "int \<Rightarrow> bool" where
  "fits_int64 n = (- 9223372036854775808 \<le> n \<and> n \<le> 9223372036854775807)"

text \<open>\<open>find().sort("s_no", 1)\<close> and \<open>find_one(sort=[("s_no", -1)])\<close>.\<close>

definition find_sorted :: "section_doc list \<Rightarrow> section_doc list" where
  "find_sorted ds = sort_key s_no ds"

definition find_one_last :: "section_doc list \<Rightarrow> section_doc option" where
  "find_one_last ds = (case sort_key (\<lambda>d. - s_no d) ds of [] \<Rightarrow> None | d # _ \<Rightarrow> Some d)"

text \<open>\<open>insert_one(doc)\<close>: the store gives the document a fresh \<open>_id\<close>.\<close>

definition insert_one :: "int \<Rightarrow> oid \<Rightarrow> oid list \<Rightarrow> db \<Rightarrow> db" where
  "insert_one sno cat prods d =
     d\<lparr>homepage_collection := homepage_collection d @
          [\<lparr>doc_id = next_id d, s_no = sno, category_id = cat, products = prods\<rparr>],
        next_id := Suc (next_id d)\<rparr>"

text \<open>
  The loop \<open>for pid in data.product_ids: product_obj_ids.append(ObjectId(pid))\<close>; the
  first identifier that does not parse is returned on the left. The parser \<open>ObjectId\<close>
  of the bson library is a parameter of the model.
\<close>

fun parse_product_ids :: "(string \<Rightarrow> oid option) \<Rightarrow> string list \<Rightarrow> string + oid list" where
  "parse_product_ids ObjectId [] = Inr []"
| "parse_product_ids ObjectId (pid # pids) =
     (case ObjectId pid of
        None \<Rightarrow> Inl pid
      | Some p \<Rightarrow> (case parse_product_ids ObjectId pids of
                    Inl bad \<Rightarrow> Inl bad
                  | Inr ps \<Rightarrow> Inr (p # ps)))"

subsection \<open>The endpoints\<close>

text \<open>
  The validation block shared, line for line, by \<open>add_homepage_section\<close> (steps 2 and 3)
  and \<open>edit_homepage_section\<close>: category identifier, category existence, number of
  products, product identifiers.
\<close>

definition validate_refs ::
  "(string \<Rightarrow> oid option) \<Rightarrow> string \<Rightarrow> string list \<Rightarrow> db \<Rightarrow> error + (oid \<times> oid list)" where
  "validate_refs ObjectId cid pids d =
     (case ObjectId cid of
        None \<Rightarrow> Inl (HTTPException 400 ''Invalid category_id'')
      | Some cat_id \<Rightarrow>
          (case find_one (\<lambda>c. cat_oid c = cat_id) (category_collection d) of
             None \<Rightarrow> Inl (HTTPException 404 ''Category not found'')
           | Some _ \<Rightarrow>
               if length pids = 0 then Inl (HTTPException 400 ''At least 1 product required'')
               else if length pids > 12 then Inl (HTTPException 400 ''Max 12 products allowed'')
               else (case parse_product_ids ObjectId pids of
                       Inl pid \<Rightarrow> Inl (HTTPException 400 (''Invalid product id: '' @ pid))
                     | Inr product_obj_ids \<Rightarrow> Inr (cat_id, product_obj_ids))))"

definition add_homepage_section ::
  "(string \<Rightarrow> oid option) \<Rightarrow> AddHomepageSection \<Rightarrow> token \<Rightarrow> db \<Rightarrow> (error + int) \<times> db" where
  "add_homepage_section ObjectId data tok d =
     (if no_requester tok then (Inl (HTTPException 401 ''Unauthorized''), d)
      else if length (homepage_collection d) \<ge> 4
        then (Inl (HTTPException 400 ''Max 4 homepage sections allowed''), d)
      else (case validate_refs ObjectId (add_category_id data) (add_product_ids data) d of
              Inl e \<Rightarrow> (Inl e, d)
            | Inr (cat_id, product_obj_ids) \<Rightarrow>
                let next_s_no = (case find_one_last (homepage_collection d) of
                                   Some last_doc \<Rightarrow> s_no last_doc + 1
                                 | None \<Rightarrow> 1)
                in if fits_int64 next_s_no
                   then (Inr next_s_no, insert_one next_s_no cat_id product_obj_ids d)
                   else (Inl OverflowError, d)))"

text \<open>
  The three writes of the swap branch, in the order of the source, each an
  \<open>update_one\<close> on \<open>{"_id": ...}\<close>.
\<close>

definition swap_step1 :: "section_doc \<Rightarrow> section_doc list \<Rightarrow> section_doc list" where
  "swap_step1 other ds = update_one (\<lambda>x. doc_id x = doc_id other) (\<lambda>x. x\<lparr>s_no := - 1\<rparr>) ds"

definition set_fields_and_s_no ::
  "section_doc \<Rightarrow> oid \<Rightarrow> oid list \<Rightarrow> int \<Rightarrow> section_doc list \<Rightarrow> section_doc list" where
  "set_fields_and_s_no current cat_id product_obj_ids new_sno ds =
     update_one (\<lambda>x. doc_id x = doc_id current)
       (\<lambda>x. x\<lparr>category_id := cat_id, products := product_obj_ids, s_no := new_sno\<rparr>) ds"

definition swap_step3 :: "section_doc \<Rightarrow> int \<Rightarrow> section_doc list \<Rightarrow> section_doc list" where
  "swap_step3 other sno ds = update_one (\<lambda>x. doc_id x = doc_id other) (\<lambda>x. x\<lparr>s_no := sno\<rparr>) ds"

definition set_fields :: "section_doc \<Rightarrow> oid \<Rightarrow> oid list \<Rightarrow> section_doc list \<Rightarrow> section_doc list" where
  "set_fields current cat_id product_obj_ids ds =
     update_one (\<lambda>x. doc_id x = doc_id current)
       (\<lambda>x. x\<lparr>category_id := cat_id, products := product_obj_ids\<rparr>) ds"

text \<open>\<open>data.s_no or s_no\<close>: \<open>None\<close> and \<open>0\<close> are both falsy.\<close>

definition new_sno_of :: "int option \<Rightarrow> int \<Rightarrow> int" where
  "new_sno_of req sno = (case req of None \<Rightarrow> sno | Some n \<Rightarrow> if n = 0 then sno else n)"

definition edit_homepage_section ::
  "(string \<Rightarrow> oid option) \<Rightarrow> int \<Rightarrow> EditHomepageSection \<Rightarrow> token \<Rightarrow> db \<Rightarrow> (error + string) \<times> db" where
  "edit_homepage_section ObjectId sno data tok d =
     (if no_requester tok then (Inl (HTTPException 401 ''Unauthorized''), d)
      else (case validate_refs ObjectId (edit_category_id data) (edit_product_ids data) d of
              Inl e \<Rightarrow> (Inl e, d)
            | Inr (cat_id, product_obj_ids) \<Rightarrow>
                (case find_one (\<lambda>x. s_no x = sno) (homepage_collection d) of
                   None \<Rightarrow>
                     (Inl (if fits_int64 sno
                           then HTTPException 404 ''Homepage section not found''
                           else OverflowError), d)
                 | Some current \<Rightarrow>
                     let new_sno = new_sno_of (edit_s_no data) sno;
                         hc = homepage_collection d
                     in if new_sno \<noteq> sno then
                          (case find_one (\<lambda>x. s_no x = new_sno) hc of
                             Some other \<Rightarrow>
                               (Inr ''Homepage section updated successfully'',
                                d\<lparr>homepage_collection :=
                                    swap_step3 other sno
                                      (set_fields_and_s_no current cat_id product_obj_ids new_sno
                                         (swap_step1 other hc))\<rparr>)
                           | None \<Rightarrow>
                               if fits_int64 new_sno
                               then (Inr ''Homepage section updated successfully'',
                                     d\<lparr>homepage_collection :=
                                         set_fields_and_s_no current cat_id product_obj_ids
                                           new_sno hc\<rparr>)
                               else (Inl OverflowError, d))
                        else (Inr ''Homepage section updated successfully'',
                              d\<lparr>homepage_collection :=
                                  set_fields current cat_id product_obj_ids hc\<rparr>))))"

definition delete_homepage_section :: "int \<Rightarrow> token \<Rightarrow> db \<Rightarrow> (error + string) \<times> db" where
  "delete_homepage_section sno tok d =
     (if no_requester tok then (Inl (HTTPException 401 ''Unauthorized''), d)
      else (case delete_one (\<lambda>x. s_no x = sno) (homepage_collection d) of
              (deleted_count, hc') \<Rightarrow>
                if deleted_count = 0
                then (Inl (if fits_int64 sno
                           then HTTPException 404 ''Homepage section not found''
                           else OverflowError),
                      d\<lparr>homepage_collection := hc'\<rparr>)
                else (Inr ''Homepage section deleted successfully'',
                      d\<lparr>homepage_collection := hc'\<rparr>)))"

subsection \<open>The listings\<close>

record product_view =
  pv_id :: string
  pv_name :: string
  pv_display_image :: "string option"

record public_product_view =
  ppv_id :: string
  ppv_name :: string
  ppv_display_image :: "string option"
  ppv_hover_image :: "string option"
  ppv_price :: "int option"
  ppv_oldPrice :: "int option"
  ppv_availability :: "string option"

record 'p section_view =
  v_s_no :: int
  v_category_id :: string
  v_category_name :: string
  v_products :: "'p list"

text \<open>
  \<open>product_collection.find({"_id": {"$in": sec["products"]}})\<close>: the product documents
  whose \<open>_id\<close> occurs in the section's list, in the collection's own order.
\<close>

definition find_in :: "oid list \<Rightarrow> product_doc list \<Rightarrow> product_doc list" where
  "find_in ids ps = filter (\<lambda>p. prod_oid p \<in> set ids) ps"

definition category_name_of :: "oid \<Rightarrow> category_doc list \<Rightarrow> string" where
  "category_name_of cid cs =
     (case find_one (\<lambda>c. cat_oid c = cid) cs of Some cat \<Rightarrow> cat_name cat | None \<Rightarrow> ''N/A'')"

definition format_section :: "db \<Rightarrow> section_doc \<Rightarrow> product_view section_view" where
  "format_section d sec =
     \<lparr>v_s_no = s_no sec,
      v_category_id = category_id sec,
      v_category_name = category_name_of (category_id sec) (category_collection d),
      v_products =
        map (\<lambda>p. \<lparr>pv_id = prod_oid p, pv_name = prod_name p, pv_display_image = display_image p\<rparr>)
          (find_in (products sec) (product_collection d))\<rparr>"

definition list_homepage_sections :: "token \<Rightarrow> db \<Rightarrow> error + product_view section_view list" where
  "list_homepage_sections tok d =
     (if no_requester tok then Inl (HTTPException 401 ''Unauthorized'')
      else Inr (map (format_section d) (find_sorted (homepage_collection d))))"

definition public_format_section :: "db \<Rightarrow> section_doc \<Rightarrow> public_product_view section_view" where
  "public_format_section d sec =
     \<lparr>v_s_no = s_no sec,
      v_category_id = category_id sec,
      v_category_name = category_name_of (category_id sec) (category_collection d),
      v_products =
        map (\<lambda>p. \<lparr>ppv_id = prod_oid p, ppv_name = prod_name p,
                   ppv_display_image = display_image p, ppv_hover_image = hover_image p,
                   ppv_price = selling_price p, ppv_oldPrice = mrp p,
                   ppv_availability = availability p\<rparr>)
          (find_in (products sec) (product_collection d))\<rparr>"

definition public_homepage :: "db \<Rightarrow> public_product_view section_view list" where
  "public_homepage d = map (public_format_section d) (find_sorted (homepage_collection d))"

subsection \<open>Sequences of requests\<close>

datatype request =
    Add AddHomepageSection
  | Edit int EditHomepageSection
  | Delete int

text \<open>The database a request leaves behind, whether it is answered or refused.\<close>

fun serve :: "(string \<Rightarrow> oid option) \<Rightarrow> token \<Rightarrow> request \<Rightarrow> db \<Rightarrow> db" where
  "serve ObjectId tok (Add data) d = snd (add_homepage_section ObjectId data tok d)"
| "serve ObjectId tok (Edit sno data) d = snd (edit_homepage_section ObjectId sno data tok d)"
| "serve ObjectId tok (Delete sno) d = snd (delete_homepage_section sno tok d)"

fun serve_all :: "(string \<Rightarrow> oid option) \<Rightarrow> token \<Rightarrow> request list \<Rightarrow> db \<Rightarrow> db" where
  "serve_all ObjectId tok [] d = d"
| "serve_all ObjectId tok (r # rs) d = serve_all ObjectId tok rs (serve ObjectId tok r d)"

text \<open>
  What the store itself guarantees of \<open>homepage_collection\<close>: no two documents share
  an \<open>_id\<close>, and the next \<open>_id\<close> it hands out is unused.
\<close>

definition ids_ok :: "db \<Rightarrow> bool" where
  "ids_ok d = (distinct (map doc_id (homepage_collection d)) \<and>
               list_all (\<lambda>x. doc_id x < next_id d) (homepage_collection d))"

definition positions :: "db \<Rightarrow> int list" where
  "positions d = map s_no (homepage_collection d)"

text \<open>Concrete data used to instantiate the theorems below.\<close>

definition oid24 :: "string \<Rightarrow> oid option" where
  "oid24 s = (if length s = 24 then Some s else None)"

definition admin :: token where
  "admin = (\<lambda>k. if k = ''sub'' then Some ''admin'' else None)"

definition catA :: oid where "catA = ''aaaaaaaaaaaaaaaaaaaaaaaa''"
definition catB :: oid where "catB = ''bbbbbbbbbbbbbbbbbbbbbbbb''"
definition prodP :: oid where "prodP = ''111111111111111111111111''"
definition prodQ :: oid where "prodQ = ''222222222222222222222222''"

definition sec :: "nat \<Rightarrow> int \<Rightarrow> section_doc" where
  "sec i n = \<lparr>doc_id = i, s_no = n, category_id = catA, products = [prodP]\<rparr>"

definition store :: "section_doc list \<Rightarrow> db" where
  "store ds =
     \<lparr>homepage_collection = ds,
      category_collection = [\<lparr>cat_oid = catA, cat_name = ''Rings''\<rparr>,
                             \<lparr>cat_oid = catB, cat_name = ''Chains''\<rparr>],
      product_collection =
        [\<lparr>prod_oid = prodP, prod_name = ''Band'', display_image = None, hover_image = None,
          selling_price = Some 10, mrp = Some 12, availability = Some ''In Stock''\<rparr>],
      next_id = 10\<rparr>"

section \<open>Facts about the collection primitives\<close>

lemma update_one_map:
  "distinct (map doc_id ds) \<Longrightarrow>
   update_one (\<lambda>x. doc_id x = i) f ds = map (\<lambda>x. if doc_id x = i then f x else x) ds"
proof (induction ds)
  case Nil
  then show ?case by simp
next
  case (Cons d ds)
  show ?case
  proof (cases "doc_id d = i")
    case True
    from Cons.prems True have "i \<notin> doc_id ` set ds" by simp
    then have "\<forall>x\<in>set ds. doc_id x \<noteq> i" by blast
    then have "map (\<lambda>x. if doc_id x = i then f x else x) ds = ds"
      by (simp add: map_idI)
    with True show ?thesis by simp
  next
    case False
    with Cons show ?thesis by simp
  qed
qed

lemma update_one_ids:
  "(\<And>x. doc_id (f x) = doc_id x) \<Longrightarrow> map doc_id (update_one flt f ds) = map doc_id ds"
  by (induction ds) auto

lemma update_one_length: "length (update_one flt f ds) = length ds"
  by (induction ds) auto

lemma find_one_Some: "find_one flt ds = Some x \<Longrightarrow> x \<in> set ds \<and> flt x"
  unfolding find_one_def by (auto simp: find_Some_iff)

lemma find_one_None: "find_one flt ds = None \<longleftrightarrow> (\<forall>x\<in>set ds. \<not> flt x)"
  unfolding find_one_def by (auto simp: find_None_iff)

lemma find_one_map:
  "(\<And>x. P (g x) = P x) \<Longrightarrow> find_one P (map g ds) = map_option g (find_one P ds)"
  unfolding find_one_def by (induction ds) auto

lemma find_one_last_None: "find_one_last ds = None \<longleftrightarrow> ds = []"
  unfolding find_one_last_def
  by (cases ds) (auto split: list.splits dest: arg_cong[where f=length])

lemma find_one_last_max:
  assumes "find_one_last ds = Some m"
  shows "m \<in> set ds \<and> (\<forall>x\<in>set ds. s_no x \<le> s_no m)"
proof -
  from assms obtain rest where e: "sort_key (\<lambda>d. - s_no d) ds = m # rest"
    unfolding find_one_last_def by (auto split: list.splits)
  have "set (sort_key (\<lambda>d. - s_no d) ds) = set ds" by simp
  with e have m: "m \<in> set ds" and s: "set ds = insert m (set rest)" by auto
  have "sorted (map (\<lambda>d. - s_no d) (sort_key (\<lambda>d. - s_no d) ds))" by (rule sorted_sort_key)
  with e have "\<forall>x\<in>set rest. - s_no m \<le> - s_no x" by simp
  with s m show ?thesis by auto
qed

lemma delete_one_len:
  "delete_one flt ds = (n, ds') \<Longrightarrow> set ds' \<subseteq> set ds \<and> length ds' \<le> length ds"
  by (induction ds arbitrary: n ds') (auto split: if_splits prod.splits)

lemma delete_one_distinct:
  "delete_one flt ds = (n, ds') \<Longrightarrow> distinct (map g ds) \<Longrightarrow> distinct (map g ds')"
proof (induction ds arbitrary: n ds')
  case Nil
  then show ?case by simp
next
  case (Cons d ds)
  show ?case
  proof (cases "flt d")
    case True
    with Cons.prems show ?thesis by simp
  next
    case False
    obtain m es where e: "delete_one flt ds = (m, es)" by (cases "delete_one flt ds")
    with False Cons.prems(1) have ds': "ds' = d # es" by simp
    from e have sub: "set es \<subseteq> set ds" by (simp add: delete_one_len)
    from Cons.prems(2) have "g d \<notin> g ` set ds" "distinct (map g ds)" by simp_all
    with sub Cons.IH[OF e] have "g d \<notin> g ` set es" "distinct (map g es)" by auto
    with ds' show ?thesis by simp
  qed
qed

text \<open>Under unique \<open>_id\<close>s the three writes of the swap amount to one pass over the list.\<close>

lemma swap_map:
  assumes "distinct (map doc_id ds)" "doc_id cur \<noteq> doc_id oth"
  shows "swap_step3 oth sno (set_fields_and_s_no cur c p new (swap_step1 oth ds)) =
    map (\<lambda>x. if doc_id x = doc_id cur then x\<lparr>category_id := c, products := p, s_no := new\<rparr>
              else if doc_id x = doc_id oth then x\<lparr>s_no := sno\<rparr> else x) ds"
proof -
  have 1: "swap_step1 oth ds = map (\<lambda>x. if doc_id x = doc_id oth then x\<lparr>s_no := - 1\<rparr> else x) ds"
    unfolding swap_step1_def using assms(1) by (rule update_one_map)
  have d1: "distinct (map doc_id (swap_step1 oth ds))"
    unfolding swap_step1_def using assms(1) by (simp add: update_one_ids)
  have 2: "set_fields_and_s_no cur c p new (swap_step1 oth ds) =
     map (\<lambda>x. if doc_id x = doc_id cur then x\<lparr>category_id := c, products := p, s_no := new\<rparr> else x)
       (swap_step1 oth ds)"
    unfolding set_fields_and_s_no_def using d1 by (rule update_one_map)
  have d2: "distinct (map doc_id (set_fields_and_s_no cur c p new (swap_step1 oth ds)))"
    unfolding set_fields_and_s_no_def using d1 by (simp add: update_one_ids)
  have 3: "swap_step3 oth sno (set_fields_and_s_no cur c p new (swap_step1 oth ds)) =
     map (\<lambda>x. if doc_id x = doc_id oth then x\<lparr>s_no := sno\<rparr> else x)
       (set_fields_and_s_no cur c p new (swap_step1 oth ds))"
    unfolding swap_step3_def using d2 by (rule update_one_map)
  show ?thesis unfolding 3 unfolding 2 unfolding 1 using assms(2) by (auto simp: comp_def)
qed

lemma validate_refs_cong:
  "category_collection d' = category_collection d \<Longrightarrow>
   validate_refs ObjectId cid pids d' = validate_refs ObjectId cid pids d"
  by (simp add: validate_refs_def split: option.splits)

lemma edit_found:
  assumes "\<not> no_requester tok"
    and "validate_refs ObjectId (edit_category_id data) (edit_product_ids data) d = Inr (c, p)"
    and "find_one (\<lambda>x. s_no x = sno) (homepage_collection d) = Some cur"
  shows "edit_homepage_section ObjectId sno data tok d =
    (if new_sno_of (edit_s_no data) sno \<noteq> sno then
       (case find_one (\<lambda>x. s_no x = new_sno_of (edit_s_no data) sno) (homepage_collection d) of
          Some other \<Rightarrow>
            (Inr ''Homepage section updated successfully'',
             d\<lparr>homepage_collection :=
                 swap_step3 other sno
                   (set_fields_and_s_no cur c p (new_sno_of (edit_s_no data) sno)
                      (swap_step1 other (homepage_collection d)))\<rparr>)
        | None \<Rightarrow>
            if fits_int64 (new_sno_of (edit_s_no data) sno)
            then (Inr ''Homepage section updated successfully'',
                  d\<lparr>homepage_collection :=
                      set_fields_and_s_no cur c p (new_sno_of (edit_s_no data) sno)
                        (homepage_collection d)\<rparr>)
            else (Inl OverflowError, d))
     else (Inr ''Homepage section updated successfully'',
           d\<lparr>homepage_collection := set_fields cur c p (homepage_collection d)\<rparr>))"
  using assms unfolding edit_homepage_section_def by (simp add: Let_def)

lemma edit_same:
  assumes "\<not> no_requester tok"
    and "validate_refs ObjectId (edit_category_id data) (edit_product_ids data) d = Inr (c, p)"
    and "find_one (\<lambda>x. s_no x = sno) (homepage_collection d) = Some cur"
    and "distinct (map doc_id (homepage_collection d))"
    and "new_sno_of (edit_s_no data) sno = sno"
  shows "edit_homepage_section ObjectId sno data tok d =
    (Inr ''Homepage section updated successfully'',
     d\<lparr>homepage_collection :=
         map (\<lambda>x. if doc_id x = doc_id cur then x\<lparr>category_id := c, products := p\<rparr> else x)
           (homepage_collection d)\<rparr>)"
  using edit_found[OF assms(1,2,3)] assms(5) update_one_map[OF assms(4)]
  by (simp add: set_fields_def)

lemma edit_free:
  assumes "\<not> no_requester tok"
    and "validate_refs ObjectId (edit_category_id data) (edit_product_ids data) d = Inr (c, p)"
    and "find_one (\<lambda>x. s_no x = sno) (homepage_collection d) = Some cur"
    and "distinct (map doc_id (homepage_collection d))"
    and "new_sno_of (edit_s_no data) sno = new" "new \<noteq> sno"
    and "find_one (\<lambda>x. s_no x = new) (homepage_collection d) = None"
    and "fits_int64 new"
  shows "edit_homepage_section ObjectId sno data tok d =
    (Inr ''Homepage section updated successfully'',
     d\<lparr>homepage_collection :=
         map (\<lambda>x. if doc_id x = doc_id cur
                   then x\<lparr>category_id := c, products := p, s_no := new\<rparr> else x)
           (homepage_collection d)\<rparr>)"
  using edit_found[OF assms(1,2,3)] assms(5,6,7,8) update_one_map[OF assms(4)]
  by (simp add: set_fields_and_s_no_def)

lemma edit_swap:
  assumes "\<not> no_requester tok"
    and "validate_refs ObjectId (edit_category_id data) (edit_product_ids data) d = Inr (c, p)"
    and "find_one (\<lambda>x. s_no x = sno) (homepage_collection d) = Some cur"
    and "distinct (map doc_id (homepage_collection d))"
    and "new_sno_of (edit_s_no data) sno = new" "new \<noteq> sno"
    and "find_one (\<lambda>x. s_no x = new) (homepage_collection d) = Some oth"
  shows "edit_homepage_section ObjectId sno data tok d =
    (Inr ''Homepage section updated successfully'',
     d\<lparr>homepage_collection :=
         map (\<lambda>x. if doc_id x = doc_id cur
                   then x\<lparr>category_id := c, products := p, s_no := new\<rparr>
                   else if doc_id x = doc_id oth then x\<lparr>s_no := sno\<rparr> else x)
           (homepage_collection d)\<rparr>)"
proof -
  from assms(4) have "inj_on doc_id (set (homepage_collection d))"
    by (simp add: distinct_map)
  with assms(3,7,6) have "doc_id cur \<noteq> doc_id oth"
    by (auto dest!: find_one_Some dest: inj_onD)
  from swap_map[OF assms(4) this] edit_found[OF assms(1,2,3)] assms(5,6,7)
  show ?thesis by simp
qed

section \<open>Capacity\<close>

text \<open>
  C5. When four or more sections are stored, \<open>add_homepage_section\<close> called by an
  authenticated requester answers 400 "Max 4 homepage sections allowed" and returns the
  database as it was, whatever the request body holds: the count is checked before the
  category and the products are looked at.
\<close>

theorem add_capacity_exceeded:
  assumes "\<not> no_requester tok" and "length (homepage_collection d) \<ge> 4"
  shows "add_homepage_section ObjectId data tok d =
           (Inl (HTTPException 400 ''Max 4 homepage sections allowed''), d)"
  using assms by (simp add: add_homepage_section_def)

theorem add_capacity_exceeded_witness:
  "\<not> no_requester admin \<and> length (homepage_collection (store [sec 0 1, sec 1 2, sec 2 3, sec 3 4])) \<ge> 4 \<and>
   add_homepage_section oid24 \<lparr>add_category_id = ''bad'', add_product_ids = []\<rparr> admin
       (store [sec 0 1, sec 1 2, sec 2 3, sec 3 4]) =
     (Inl (HTTPException 400 ''Max 4 homepage sections allowed''),
      store [sec 0 1, sec 1 2, sec 2 3, sec 3 4])"
proof -
  have a: "\<not> no_requester admin" by (simp add: no_requester_def admin_def)
  have b: "length (homepage_collection (store [sec 0 1, sec 1 2, sec 2 3, sec 3 4])) \<ge> 4"
    by (simp add: store_def)
  from add_capacity_exceeded[OF a b] a b show ?thesis by simp
qed

section \<open>Editing a position that holds no section\<close>

text \<open>
  C9, as stated: whenever no section holds the target position, \<open>edit_homepage_section\<close>
  answers 404 "Homepage section not found". The statement fails, because the category and
  the products are validated before the section is looked up: on a store whose only
  section is at position 1, an edit of position 7 with the category identifier \<open>bad\<close> is
  answered 400 "Invalid category_id".
\<close>

theorem edit_missing_counterexample:
  "find_one (\<lambda>x. s_no x = 7) (homepage_collection (store [sec 0 1])) = None \<and>
   fst (edit_homepage_section oid24 7
          \<lparr>edit_category_id = ''bad'', edit_product_ids = [prodP], edit_s_no = None\<rparr>
          admin (store [sec 0 1]))
     = Inl (HTTPException 400 ''Invalid category_id'') \<and>
   fst (edit_homepage_section oid24 7
          \<lparr>edit_category_id = ''bad'', edit_product_ids = [prodP], edit_s_no = None\<rparr>
          admin (store [sec 0 1]))
     \<noteq> Inl (HTTPException 404 ''Homepage section not found'')"
  by (simp add: edit_homepage_section_def validate_refs_def oid24_def find_one_def
      no_requester_def admin_def store_def sec_def)

text \<open>
  C9, amended: when no section holds the target position, and the target position is
  an integer the store can hold (one of at most eight bytes), an edit by an
  authenticated requester fails and returns the database as it was. The error is the
  one of the validation of the category and the products when that validation fails,
  and 404 "Homepage section not found" when it passes.
\<close>

theorem edit_missing_fails_unchanged:
  assumes "\<not> no_requester tok"
    and "find_one (\<lambda>x. s_no x = sno) (homepage_collection d) = None"
    and "fits_int64 sno"
  shows "edit_homepage_section ObjectId sno data tok d =
           (Inl (case validate_refs ObjectId (edit_category_id data) (edit_product_ids data) d of
                   Inl e \<Rightarrow> e
                 | Inr v \<Rightarrow> HTTPException 404 ''Homepage section not found''), d)"
  using assms by (simp add: edit_homepage_section_def split: sum.splits)

theorem edit_missing_fails_unchanged_witness:
  "\<not> no_requester admin \<and>
   find_one (\<lambda>x. s_no x = 7) (homepage_collection (store [sec 0 1])) = None \<and>
   fits_int64 7 \<and>
   edit_homepage_section oid24 7
       \<lparr>edit_category_id = catB, edit_product_ids = [prodQ], edit_s_no = Some 1\<rparr>
       admin (store [sec 0 1])
     = (Inl (HTTPException 404 ''Homepage section not found''), store [sec 0 1])"
proof -
  have a: "\<not> no_requester admin" by (simp add: no_requester_def admin_def)
  have b: "find_one (\<lambda>x. s_no x = 7) (homepage_collection (store [sec 0 1])) = None"
    by (simp add: find_one_def store_def sec_def)
  have v: "validate_refs oid24 catB [prodQ] (store [sec 0 1]) = Inr (catB, [prodQ])"
    by (simp add: validate_refs_def oid24_def catB_def catA_def prodQ_def store_def find_one_def)
  have f: "fits_int64 7" by (simp add: fits_int64_def)
  from edit_missing_fails_unchanged[OF a b f, of oid24
      "\<lparr>edit_category_id = catB, edit_product_ids = [prodQ], edit_s_no = Some 1\<rparr>"] a b f v
  show ?thesis by simp
qed

section \<open>Editing in place\<close>

lemma map_keeps:
  "(\<And>x. h (g x) = h x) \<Longrightarrow> map h (map g ds) = map h ds"
  by simp

lemma edit_in_place_again:
  assumes "\<not> no_requester tok"
    and "validate_refs ObjectId (edit_category_id data) (edit_product_ids data) d = Inr (c, p)"
    and "find_one (\<lambda>x. s_no x = sno) (homepage_collection d) = Some cur"
    and "distinct (map doc_id (homepage_collection d))"
    and "new_sno_of (edit_s_no data) sno = sno"
  shows "edit_homepage_section ObjectId sno data tok
           (snd (edit_homepage_section ObjectId sno data tok d)) =
         edit_homepage_section ObjectId sno data tok d"
proof -
  let ?g = "\<lambda>x. if doc_id x = doc_id cur then x\<lparr>category_id := c, products := p\<rparr> else x"
  let ?d' = "d\<lparr>homepage_collection := map ?g (homepage_collection d)\<rparr>"
  have e1: "edit_homepage_section ObjectId sno data tok d =
      (Inr ''Homepage section updated successfully'', ?d')"
    by (rule edit_same[OF assms])
  have v: "validate_refs ObjectId (edit_category_id data) (edit_product_ids data) ?d' = Inr (c, p)"
    using assms(2) validate_refs_cong[of ?d' d ObjectId] by simp
  have f: "find_one (\<lambda>x. s_no x = sno) (homepage_collection ?d') = Some (?g cur)"
    using assms(3) by (simp add: find_one_map)
  have i: "distinct (map doc_id (homepage_collection ?d'))"
  proof -
    have "map doc_id (map ?g (homepage_collection d)) = map doc_id (homepage_collection d)"
      by (rule map_keeps) simp
    moreover have "homepage_collection ?d' = map ?g (homepage_collection d)" by simp
    ultimately show ?thesis using assms(4) by (simp only:)
  qed
  have m: "map (\<lambda>x. if doc_id x = doc_id (?g cur) then x\<lparr>category_id := c, products := p\<rparr> else x)
             (homepage_collection ?d') = map ?g (homepage_collection d)"
    by simp
  from edit_same[OF assms(1) v f i assms(5)] m e1 show ?thesis by simp
qed

text \<open>
  C8. For a stored section, an edit whose requested position is the section's own
  position, or is left out, rewrites the category and the products of that section
  only, keeps every position, and a second call with the same arguments gives the same
  answer and the same database as the first.
\<close>

theorem edit_same_position_idempotent:
  assumes "\<not> no_requester tok"
    and "validate_refs ObjectId (edit_category_id data) (edit_product_ids data) d = Inr (c, p)"
    and "find_one (\<lambda>x. s_no x = sno) (homepage_collection d) = Some cur"
    and "distinct (map doc_id (homepage_collection d))"
    and "edit_s_no data = None \<or> edit_s_no data = Some sno"
  shows "edit_homepage_section ObjectId sno data tok d =
           (Inr ''Homepage section updated successfully'',
            d\<lparr>homepage_collection :=
                 map (\<lambda>x. if x = cur then x\<lparr>category_id := c, products := p\<rparr> else x)
                   (homepage_collection d)\<rparr>)
         \<and> positions (snd (edit_homepage_section ObjectId sno data tok d)) = positions d
         \<and> edit_homepage_section ObjectId sno data tok
             (snd (edit_homepage_section ObjectId sno data tok d)) =
           edit_homepage_section ObjectId sno data tok d"
proof -
  from assms(5) have n: "new_sno_of (edit_s_no data) sno = sno"
    by (auto simp: new_sno_of_def)
  from assms(4) have inj: "inj_on doc_id (set (homepage_collection d))"
    by (simp add: distinct_map)
  from assms(3) have cur: "cur \<in> set (homepage_collection d)" by (simp add: find_one_Some)
  have m: "map (\<lambda>x. if doc_id x = doc_id cur then x\<lparr>category_id := c, products := p\<rparr> else x)
             (homepage_collection d) =
           map (\<lambda>x. if x = cur then x\<lparr>category_id := c, products := p\<rparr> else x)
             (homepage_collection d)"
    using inj cur by (auto dest: inj_onD)
  have e: "edit_homepage_section ObjectId sno data tok d =
           (Inr ''Homepage section updated successfully'',
            d\<lparr>homepage_collection :=
                 map (\<lambda>x. if x = cur then x\<lparr>category_id := c, products := p\<rparr> else x)
                   (homepage_collection d)\<rparr>)"
    using edit_same[OF assms(1-4) n] m by simp
  have ps: "positions (snd (edit_homepage_section ObjectId sno data tok d)) = positions d"
  proof -
    have "map s_no (map (\<lambda>x. if x = cur then x\<lparr>category_id := c, products := p\<rparr> else x)
             (homepage_collection d)) = map s_no (homepage_collection d)"
      by (rule map_keeps) simp
    then show ?thesis unfolding e positions_def by (simp del: map_map)
  qed
  from e ps edit_in_place_again[OF assms(1-4) n] show ?thesis by simp
qed


theorem edit_same_position_idempotent_witness:
  "edit_homepage_section oid24 2
       \<lparr>edit_category_id = catB, edit_product_ids = [prodQ], edit_s_no = Some 2\<rparr>
       admin (store [sec 0 1, sec 1 2])
     = (Inr ''Homepage section updated successfully'',
        store [sec 0 1, \<lparr>doc_id = 1, s_no = 2, category_id = catB, products = [prodQ]\<rparr>])
   \<and> edit_homepage_section oid24 2
       \<lparr>edit_category_id = catB, edit_product_ids = [prodQ], edit_s_no = Some 2\<rparr> admin
       (snd (edit_homepage_section oid24 2
          \<lparr>edit_category_id = catB, edit_product_ids = [prodQ], edit_s_no = Some 2\<rparr>
          admin (store [sec 0 1, sec 1 2])))
     = edit_homepage_section oid24 2
       \<lparr>edit_category_id = catB, edit_product_ids = [prodQ], edit_s_no = Some 2\<rparr>
       admin (store [sec 0 1, sec 1 2])"
proof -
  let ?data = "\<lparr>edit_category_id = catB, edit_product_ids = [prodQ], edit_s_no = Some 2\<rparr>"
  let ?d = "store [sec 0 1, sec 1 2]"
  have a: "\<not> no_requester admin" by (simp add: no_requester_def admin_def)
  have v: "validate_refs oid24 (edit_category_id ?data) (edit_product_ids ?data) ?d = Inr (catB, [prodQ])"
    by (simp add: validate_refs_def oid24_def catB_def catA_def prodQ_def store_def find_one_def)
  have f: "find_one (\<lambda>x. s_no x = 2) (homepage_collection ?d) = Some (sec 1 2)"
    by (simp add: find_one_def store_def sec_def)
  have i: "distinct (map doc_id (homepage_collection ?d))"
    by (simp add: store_def sec_def)
  have s: "edit_s_no ?data = None \<or> edit_s_no ?data = Some 2" by simp
  note t = edit_same_position_idempotent[OF a v f i s]
  have r: "?d\<lparr>homepage_collection :=
               map (\<lambda>x. if x = sec 1 2 then x\<lparr>category_id := catB, products := [prodQ]\<rparr> else x)
                 (homepage_collection ?d)\<rparr> =
           store [sec 0 1, \<lparr>doc_id = 1, s_no = 2, category_id = catB, products = [prodQ]\<rparr>]"
    by (simp add: store_def sec_def)
  from t[THEN conjunct1] have 1: "edit_homepage_section oid24 2 ?data admin ?d =
      (Inr ''Homepage section updated successfully'',
       store [sec 0 1, \<lparr>doc_id = 1, s_no = 2, category_id = catB, products = [prodQ]\<rparr>])"
    unfolding r .
  from 1 t[THEN conjunct2, THEN conjunct2] show ?thesis by (rule conjI)
qed

text \<open>
  C10. For a stored section, an edit whose requested position is 0 gives the same
  answer and the same database as the edit that leaves the position out: the section
  keeps its position, only its category and its products are rewritten, and every
  position in the store is what it was.
\<close>

theorem edit_zero_is_omitted:
  assumes "\<not> no_requester tok"
    and "validate_refs ObjectId (edit_category_id data) (edit_product_ids data) d = Inr (c, p)"
    and "find_one (\<lambda>x. s_no x = sno) (homepage_collection d) = Some cur"
    and "distinct (map doc_id (homepage_collection d))"
  shows "edit_homepage_section ObjectId sno (data\<lparr>edit_s_no := Some 0\<rparr>) tok d =
         edit_homepage_section ObjectId sno (data\<lparr>edit_s_no := None\<rparr>) tok d
       \<and> edit_homepage_section ObjectId sno (data\<lparr>edit_s_no := Some 0\<rparr>) tok d =
           (Inr ''Homepage section updated successfully'',
            d\<lparr>homepage_collection :=
                 map (\<lambda>x. if x = cur then x\<lparr>category_id := c, products := p\<rparr> else x)
                   (homepage_collection d)\<rparr>)
       \<and> positions (snd (edit_homepage_section ObjectId sno (data\<lparr>edit_s_no := Some 0\<rparr>) tok d))
           = positions d"
proof -
  have eq: "edit_homepage_section ObjectId sno (data\<lparr>edit_s_no := Some 0\<rparr>) tok d =
            edit_homepage_section ObjectId sno (data\<lparr>edit_s_no := None\<rparr>) tok d"
    by (simp add: edit_homepage_section_def new_sno_of_def split: sum.splits option.splits prod.splits)
  from assms(4) have inj: "inj_on doc_id (set (homepage_collection d))"
    by (simp add: distinct_map)
  from assms(3) have cur: "cur \<in> set (homepage_collection d)" by (simp add: find_one_Some)
  have m: "map (\<lambda>x. if doc_id x = doc_id cur then x\<lparr>category_id := c, products := p\<rparr> else x)
             (homepage_collection d) =
           map (\<lambda>x. if x = cur then x\<lparr>category_id := c, products := p\<rparr> else x)
             (homepage_collection d)"
    using inj cur by (auto dest: inj_onD)
  have v: "validate_refs ObjectId (edit_category_id (data\<lparr>edit_s_no := Some 0\<rparr>))
             (edit_product_ids (data\<lparr>edit_s_no := Some 0\<rparr>)) d = Inr (c, p)"
    using assms(2) by simp
  have n: "new_sno_of (edit_s_no (data\<lparr>edit_s_no := Some 0\<rparr>)) sno = sno"
    by (simp add: new_sno_of_def)
  have e: "edit_homepage_section ObjectId sno (data\<lparr>edit_s_no := Some 0\<rparr>) tok d =
           (Inr ''Homepage section updated successfully'',
            d\<lparr>homepage_collection :=
                 map (\<lambda>x. if x = cur then x\<lparr>category_id := c, products := p\<rparr> else x)
                   (homepage_collection d)\<rparr>)"
    using edit_same[OF assms(1) v assms(3,4) n] m by simp
  have ps: "positions (snd (edit_homepage_section ObjectId sno (data\<lparr>edit_s_no := Some 0\<rparr>) tok d))
            = positions d"
  proof -
    have "map s_no (map (\<lambda>x. if x = cur then x\<lparr>category_id := c, products := p\<rparr> else x)
             (homepage_collection d)) = map s_no (homepage_collection d)"
      by (rule map_keeps) simp
    then show ?thesis unfolding e positions_def by (simp del: map_map)
  qed
  from eq e ps show ?thesis by (intro conjI)
qed

theorem edit_zero_is_omitted_witness:
  "edit_homepage_section oid24 2
       \<lparr>edit_category_id = catB, edit_product_ids = [prodQ], edit_s_no = Some 0\<rparr>
       admin (store [sec 0 1, sec 1 2])
     = (Inr ''Homepage section updated successfully'',
        store [sec 0 1, \<lparr>doc_id = 1, s_no = 2, category_id = catB, products = [prodQ]\<rparr>])"
proof -
  let ?data = "\<lparr>edit_category_id = catB, edit_product_ids = [prodQ], edit_s_no = Some 5\<rparr>"
  let ?d = "store [sec 0 1, sec 1 2]"
  have a: "\<not> no_requester admin" by (simp add: no_requester_def admin_def)
  have v: "validate_refs oid24 (edit_category_id ?data) (edit_product_ids ?data) ?d = Inr (catB, [prodQ])"
    by (simp add: validate_refs_def oid24_def catB_def catA_def prodQ_def store_def find_one_def)
  have f: "find_one (\<lambda>x. s_no x = 2) (homepage_collection ?d) = Some (sec 1 2)"
    by (simp add: find_one_def store_def sec_def)
  have i: "distinct (map doc_id (homepage_collection ?d))"
    by (simp add: store_def sec_def)
  note t = edit_zero_is_omitted[OF a v f i]
  have r: "?d\<lparr>homepage_collection :=
               map (\<lambda>x. if x = sec 1 2 then x\<lparr>category_id := catB, products := [prodQ]\<rparr> else x)
                 (homepage_collection ?d)\<rparr> =
           store [sec 0 1, \<lparr>doc_id = 1, s_no = 2, category_id = catB, products = [prodQ]\<rparr>]"
    by (simp add: store_def sec_def)
  have u: "?data\<lparr>edit_s_no := Some 0\<rparr> =
           \<lparr>edit_category_id = catB, edit_product_ids = [prodQ], edit_s_no = Some 0\<rparr>"
    by simp
  from t[THEN conjunct2, THEN conjunct1] show ?thesis unfolding r u .
qed

section \<open>Exchanging two positions\<close>

lemma find_one_unique:
  assumes "distinct (map s_no ds)" "find_one (\<lambda>x. s_no x = k) ds = Some y" "x \<in> set ds"
  shows "s_no x = k \<longleftrightarrow> x = y"
proof -
  from assms(1) have "inj_on s_no (set ds)" by (simp add: distinct_map)
  moreover from assms(2) have "y \<in> set ds" "s_no y = k" by (auto dest: find_one_Some)
  ultimately show ?thesis using assms(3) by (auto dest: inj_onD)
qed

lemma find_one_present:
  "k \<in> set (map s_no ds) \<Longrightarrow> \<exists>y. find_one (\<lambda>x. s_no x = k) ds = Some y"
  by (cases "find_one (\<lambda>x. s_no x = k) ds") (auto simp: find_one_None)

lemma edit_swap_by_position:
  assumes "\<not> no_requester tok"
    and "validate_refs ObjectId (edit_category_id data) (edit_product_ids data) d = Inr (c, p)"
    and "distinct (map doc_id (homepage_collection d))"
    and "distinct (positions d)"
    and "sno \<in> set (positions d)" "new \<in> set (positions d)"
    and "new_sno_of (edit_s_no data) sno = new" "new \<noteq> sno"
  shows "edit_homepage_section ObjectId sno data tok d =
    (Inr ''Homepage section updated successfully'',
     d\<lparr>homepage_collection :=
         map (\<lambda>x. if s_no x = sno
                   then x\<lparr>category_id := c, products := p, s_no := new\<rparr>
                   else if s_no x = new then x\<lparr>s_no := sno\<rparr> else x)
           (homepage_collection d)\<rparr>)"
proof -
  let ?hc = "homepage_collection d"
  from assms(5) obtain cur where cur: "find_one (\<lambda>x. s_no x = sno) ?hc = Some cur"
    unfolding positions_def by (blast dest: find_one_present)
  from assms(6) obtain oth where oth: "find_one (\<lambda>x. s_no x = new) ?hc = Some oth"
    unfolding positions_def by (blast dest: find_one_present)
  from assms(4) have dp: "distinct (map s_no ?hc)" by (simp add: positions_def)
  from assms(3) have inj: "inj_on doc_id (set ?hc)" by (simp add: distinct_map)
  from cur oth have mem: "cur \<in> set ?hc" "oth \<in> set ?hc" by (auto dest: find_one_Some)
  have "map (\<lambda>x. if doc_id x = doc_id cur
                   then x\<lparr>category_id := c, products := p, s_no := new\<rparr>
                   else if doc_id x = doc_id oth then x\<lparr>s_no := sno\<rparr> else x) ?hc =
        map (\<lambda>x. if s_no x = sno
                   then x\<lparr>category_id := c, products := p, s_no := new\<rparr>
                   else if s_no x = new then x\<lparr>s_no := sno\<rparr> else x) ?hc"
  proof (rule map_cong[OF refl])
    fix x assume x: "x \<in> set ?hc"
    from inj x mem have a: "doc_id x = doc_id cur \<longleftrightarrow> x = cur" "doc_id x = doc_id oth \<longleftrightarrow> x = oth"
      by (auto dest: inj_onD)
    from find_one_unique[OF dp cur x] find_one_unique[OF dp oth x]
    have b: "s_no x = sno \<longleftrightarrow> x = cur" "s_no x = new \<longleftrightarrow> x = oth" by simp_all
    show "(if doc_id x = doc_id cur
                   then x\<lparr>category_id := c, products := p, s_no := new\<rparr>
                   else if doc_id x = doc_id oth then x\<lparr>s_no := sno\<rparr> else x) =
          (if s_no x = sno
                   then x\<lparr>category_id := c, products := p, s_no := new\<rparr>
                   else if s_no x = new then x\<lparr>s_no := sno\<rparr> else x)"
      unfolding a b ..
  qed
  with edit_swap[OF assms(1,2) cur assms(3,7,8) oth] show ?thesis by simp
qed

text \<open>
  C2. In a store whose sections hold exactly the positions 1, 2 and 3, an edit of
  position 1 with valid references and requested position 3 succeeds; afterwards the
  section that was at 1 is at 3 and carries the new category and products, the
  section that was at 3 is at 1 with its fields as they were, the section at 2 is
  untouched, and the positions held are again exactly 1, 2 and 3.
\<close>

theorem edit_swap_1_3:
  assumes "\<not> no_requester tok"
    and "validate_refs ObjectId (edit_category_id data) (edit_product_ids data) d = Inr (c, p)"
    and "distinct (map doc_id (homepage_collection d))"
    and "distinct (positions d)" and "set (positions d) = {1, 2, 3}"
    and "edit_s_no data = Some 3"
  shows "edit_homepage_section ObjectId 1 data tok d =
    (Inr ''Homepage section updated successfully'',
     d\<lparr>homepage_collection :=
         map (\<lambda>x. if s_no x = 1 then x\<lparr>category_id := c, products := p, s_no := 3\<rparr>
                   else if s_no x = 3 then x\<lparr>s_no := 1\<rparr> else x)
           (homepage_collection d)\<rparr>)
    \<and> distinct (positions (snd (edit_homepage_section ObjectId 1 data tok d)))
    \<and> set (positions (snd (edit_homepage_section ObjectId 1 data tok d))) = {1, 2, 3}"
proof -
  from assms(6) have n: "new_sno_of (edit_s_no data) 1 = 3" by (simp add: new_sno_of_def)
  from assms(5) have m: "1 \<in> set (positions d)" "3 \<in> set (positions d)" by simp_all
  have e: "edit_homepage_section ObjectId 1 data tok d =
    (Inr ''Homepage section updated successfully'',
     d\<lparr>homepage_collection :=
         map (\<lambda>x. if s_no x = 1 then x\<lparr>category_id := c, products := p, s_no := 3\<rparr>
                   else if s_no x = 3 then x\<lparr>s_no := 1\<rparr> else x)
           (homepage_collection d)\<rparr>)"
    by (rule edit_swap_by_position[OF assms(1-4) m n]) simp
  let ?h = "\<lambda>k::int. if k = 1 then 3 else if k = 3 then 1 else k"
  have ps: "positions (snd (edit_homepage_section ObjectId 1 data tok d)) = map ?h (positions d)"
    unfolding e positions_def by (simp add: comp_def if_distribR cong: if_cong) 
  have "inj ?h" by (auto simp: inj_on_def)
  then have "inj_on ?h (set (positions d))" by (rule inj_on_subset) simp
  then have 1: "distinct (map ?h (positions d))"
    using assms(4) by (simp add: distinct_map)
  have 2: "set (map ?h (positions d)) = {1, 2, 3}"
    using assms(5) by auto
  from e 1 2 show ?thesis unfolding ps by (intro conjI)
qed

theorem edit_swap_1_3_witness:
  "edit_homepage_section oid24 1
       \<lparr>edit_category_id = catB, edit_product_ids = [prodQ], edit_s_no = Some 3\<rparr>
       admin (store [sec 0 1, sec 1 2, sec 2 3])
     = (Inr ''Homepage section updated successfully'',
        store [\<lparr>doc_id = 0, s_no = 3, category_id = catB, products = [prodQ]\<rparr>,
               sec 1 2, sec 2 1])"
proof -
  let ?data = "\<lparr>edit_category_id = catB, edit_product_ids = [prodQ], edit_s_no = Some 3\<rparr>"
  let ?d = "store [sec 0 1, sec 1 2, sec 2 3]"
  have a: "\<not> no_requester admin" by (simp add: no_requester_def admin_def)
  have v: "validate_refs oid24 (edit_category_id ?data) (edit_product_ids ?data) ?d = Inr (catB, [prodQ])"
    by (simp add: validate_refs_def oid24_def catB_def catA_def prodQ_def store_def find_one_def)
  have i: "distinct (map doc_id (homepage_collection ?d))"
    by (simp add: store_def sec_def)
  have p: "distinct (positions ?d)" by (simp add: positions_def store_def sec_def)
  have q: "set (positions ?d) = {1, 2, 3}" by (simp add: positions_def store_def sec_def)
  have s: "edit_s_no ?data = Some 3" by simp
  note t = edit_swap_1_3[OF a v i p q s]
  have r: "?d\<lparr>homepage_collection :=
               map (\<lambda>x. if s_no x = 1 then x\<lparr>category_id := catB, products := [prodQ], s_no := 3\<rparr>
                         else if s_no x = 3 then x\<lparr>s_no := 1\<rparr> else x)
                 (homepage_collection ?d)\<rparr> =
           store [\<lparr>doc_id = 0, s_no = 3, category_id = catB, products = [prodQ]\<rparr>,
                  sec 1 2, sec 2 1]"
    by (simp add: store_def sec_def)
  from t[THEN conjunct1] show ?thesis unfolding r .
qed

section \<open>The position given by add\<close>

lemma delete_one_positions:
  "map s_no (snd (delete_one (\<lambda>x. s_no x = k) ds)) = remove1 k (map s_no ds) \<and>
   fst (delete_one (\<lambda>x. s_no x = k) ds) = (if k \<in> set (map s_no ds) then 1 else 0)"
  by (induction ds) (auto split: prod.splits)

lemma delete_found:
  assumes "\<not> no_requester tok" "sno \<in> set (positions d)"
  shows "delete_homepage_section sno tok d =
           (Inr ''Homepage section deleted successfully'',
            d\<lparr>homepage_collection := snd (delete_one (\<lambda>x. s_no x = sno) (homepage_collection d))\<rparr>)"
  using assms delete_one_positions[of sno "homepage_collection d"]
  by (auto simp: delete_homepage_section_def positions_def split: prod.splits)

lemma next_s_no_max:
  "(case find_one_last ds of Some last_doc \<Rightarrow> s_no last_doc + 1 | None \<Rightarrow> 1) =
   (if ds = [] then 1 else Max (set (map s_no ds)) + 1)"
proof (cases "find_one_last ds")
  case None
  then have "ds = []" by (simp add: find_one_last_None)
  with None show ?thesis by simp
next
  case (Some m)
  then have ne: "ds \<noteq> []" using find_one_last_None[of ds] by auto
  from find_one_last_max[OF Some] have "Max (set (map s_no ds)) = s_no m"
    by (intro Max_eqI) auto
  with Some ne show ?thesis by simp
qed

lemma add_accepted:
  assumes "\<not> no_requester tok" "length (homepage_collection d) < 4"
    and "validate_refs ObjectId (add_category_id data) (add_product_ids data) d = Inr (c, p)"
  shows "add_homepage_section ObjectId data tok d =
    (if fits_int64 (if homepage_collection d = [] then 1 else Max (set (positions d)) + 1)
     then (Inr (if homepage_collection d = [] then 1 else Max (set (positions d)) + 1),
           insert_one (if homepage_collection d = [] then 1 else Max (set (positions d)) + 1)
             c p d)
     else (Inl OverflowError, d))"
  using assms next_s_no_max[of "homepage_collection d"]
  by (simp add: add_homepage_section_def positions_def Let_def)

lemma add_Inr:
  assumes "add_homepage_section ObjectId data tok d = (Inr n, d')"
  shows "\<not> no_requester tok \<and> length (homepage_collection d) < 4 \<and>
    (\<exists>c p. validate_refs ObjectId (add_category_id data) (add_product_ids data) d = Inr (c, p))"
  using assms
  by (auto simp: add_homepage_section_def split: if_splits sum.splits)

lemma remove1_of_pair:
  assumes "distinct xs" "set xs = {1, 2::int}"
  shows "remove1 1 xs = [2]"
proof -
  let ?ys = "remove1 1 xs"
  from assms have s: "set ?ys = {2}" by auto
  from assms(1) have d: "distinct ?ys" by simp
  from d have "length ?ys = card (set ?ys)" by (simp add: distinct_card)
  with s have "length ?ys = 1" by simp
  then obtain y where y: "?ys = [y]" by (cases ?ys) auto
  with s show ?thesis by simp
qed

lemma delete_keeps_positions:
  "set (positions (snd (delete_homepage_section sno tok d))) \<subseteq> set (positions d)"
proof -
  obtain n ds' where e: "delete_one (\<lambda>x. s_no x = sno) (homepage_collection d) = (n, ds')"
    by (cases "delete_one (\<lambda>x. s_no x = sno) (homepage_collection d)")
  from delete_one_len[OF e] have "set (map s_no ds') \<subseteq> set (map s_no (homepage_collection d))"
    by auto
  with e show ?thesis by (auto simp: delete_homepage_section_def positions_def)
qed

text \<open>
  C4, as stated: a successful add gives the largest stored position plus 1, or 1 on
  an empty collection, and once position 1 has been deleted no request other than an
  edit puts a section there again. The last part fails. From a store holding the
  positions 1 and 2, deleting 1, deleting 2 and adding leaves one section, at
  position 1.
\<close>

theorem add_reassigns_position_1_counterexample:
  "positions (serve_all oid24 admin
      [Delete 1, Delete 2, Add \<lparr>add_category_id = catB, add_product_ids = [prodQ]\<rparr>]
      (store [sec 0 1, sec 1 2])) = [1]"
  by code_simp

text \<open>
  C4, amended: whenever \<open>add_homepage_section\<close> succeeds, the position it returns and
  stores is 1 on an empty collection and the largest stored position plus 1 otherwise,
  and the new section is appended with that position. In particular, in a store
  holding exactly the positions 1 and 2, deleting position 1 and then adding with
  valid references gives the new section position 3, and the positions are then 2 and
  3. A delete brings no position into the store that was not there, and an add gives
  position 1 exactly when the collection is empty or its largest position is 0: so
  position 1 stays free under add and delete while a section at a position of 1 or
  more remains, and is given out again once the collection has been emptied.
\<close>

theorem add_position_is_max_plus_one:
  "(add_homepage_section ObjectId data tok d = (Inr n, d') \<longrightarrow>
      n = (if homepage_collection d = [] then 1 else Max (set (positions d)) + 1) \<and>
      positions d' = positions d @ [n] \<and>
      (\<exists>c p. d' = insert_one n c p d) \<and>
      (n = 1 \<longleftrightarrow> homepage_collection d = [] \<or> Max (set (positions d)) = 0))
   \<and> (\<not> no_requester tok \<and> distinct (positions d) \<and> set (positions d) = {1, 2} \<and>
        validate_refs ObjectId (add_category_id data) (add_product_ids data) d = Inr (c, p) \<longrightarrow>
      (\<exists>d1 d2. delete_homepage_section 1 tok d =
                   (Inr ''Homepage section deleted successfully'', d1) \<and>
                 positions d1 = [2] \<and>
                 add_homepage_section ObjectId data tok d1 = (Inr 3, d2) \<and>
                 positions d2 = [2, 3]))
   \<and> set (positions (snd (delete_homepage_section sno tok d))) \<subseteq> set (positions d)"
proof (intro conjI impI)
  assume ok: "add_homepage_section ObjectId data tok d = (Inr n, d')"
  from add_Inr[OF ok] obtain c' p' where
    h: "\<not> no_requester tok" "length (homepage_collection d) < 4"
       "validate_refs ObjectId (add_category_id data) (add_product_ids data) d = Inr (c', p')"
    by blast
  from add_accepted[OF h] ok
  have n: "n = (if homepage_collection d = [] then 1 else Max (set (positions d)) + 1)"
    and d': "d' = insert_one n c' p' d" by (simp_all split: if_splits)
  from n show "n = (if homepage_collection d = [] then 1 else Max (set (positions d)) + 1)" .
  from d' show "positions d' = positions d @ [n]" by (simp add: insert_one_def positions_def)
  from d' show "\<exists>c p. d' = insert_one n c p d" by blast
  from n show "n = 1 \<longleftrightarrow> homepage_collection d = [] \<or> Max (set (positions d)) = 0"
    by auto
next
  assume a: "\<not> no_requester tok \<and> distinct (positions d) \<and> set (positions d) = {1, 2} \<and>
        validate_refs ObjectId (add_category_id data) (add_product_ids data) d = Inr (c, p)"
  let ?d1 = "d\<lparr>homepage_collection := snd (delete_one (\<lambda>x. s_no x = 1) (homepage_collection d))\<rparr>"
  from a have del: "delete_homepage_section 1 tok d =
      (Inr ''Homepage section deleted successfully'', ?d1)"
    by (intro delete_found) simp_all
  have p1: "positions ?d1 = [2]"
    using a delete_one_positions[of 1 "homepage_collection d"] remove1_of_pair[of "positions d"]
    by (simp add: positions_def)
  then have len: "length (homepage_collection ?d1) < 4" "homepage_collection ?d1 \<noteq> []"
    unfolding positions_def by (auto dest: arg_cong[where f = length])
  from a have v: "validate_refs ObjectId (add_category_id data) (add_product_ids data) ?d1 = Inr (c, p)"
    using validate_refs_cong[of ?d1 d ObjectId] by simp
  from a have tk: "\<not> no_requester tok" by simp
  from add_accepted[OF tk len(1) v] len(2) p1
  have add: "add_homepage_section ObjectId data tok ?d1 = (Inr 3, insert_one 3 c p ?d1)"
    by (simp add: fits_int64_def)
  have p2: "positions (insert_one 3 c p ?d1) = [2, 3]"
    using p1 by (simp add: insert_one_def positions_def)
  from del p1 add p2
  show "\<exists>d1 d2. delete_homepage_section 1 tok d =
                   (Inr ''Homepage section deleted successfully'', d1) \<and>
                 positions d1 = [2] \<and>
                 add_homepage_section ObjectId data tok d1 = (Inr 3, d2) \<and>
                 positions d2 = [2, 3]"
    by blast
next
  show "set (positions (snd (delete_homepage_section sno tok d))) \<subseteq> set (positions d)"
    by (rule delete_keeps_positions)
qed

theorem add_position_is_max_plus_one_witness:
  "(3::int) = (if homepage_collection (store [sec 0 1, sec 1 2]) = [] then 1
               else Max (set (positions (store [sec 0 1, sec 1 2]))) + 1)
   \<and> (\<exists>d1 d2. delete_homepage_section 1 admin (store [sec 0 1, sec 1 2]) =
                   (Inr ''Homepage section deleted successfully'', d1) \<and>
                 positions d1 = [2] \<and>
                 add_homepage_section oid24 \<lparr>add_category_id = catB, add_product_ids = [prodQ]\<rparr>
                   admin d1 = (Inr 3, d2) \<and>
                 positions d2 = [2, 3])
   \<and> set (positions (snd (delete_homepage_section 1 admin (store [sec 0 1, sec 1 2]))))
       \<subseteq> set (positions (store [sec 0 1, sec 1 2]))"
proof -
  let ?data = "\<lparr>add_category_id = catB, add_product_ids = [prodQ]\<rparr>"
  let ?d = "store [sec 0 1, sec 1 2]"
  have a: "\<not> no_requester admin" by (simp add: no_requester_def admin_def)
  have v: "validate_refs oid24 (add_category_id ?data) (add_product_ids ?data) ?d = Inr (catB, [prodQ])"
    by (simp add: validate_refs_def oid24_def catB_def catA_def prodQ_def store_def find_one_def)
  have l: "find_one_last (homepage_collection ?d) = Some (sec 1 2)"
    by (simp add: find_one_last_def sort_key_def store_def sec_def)
  have ok: "add_homepage_section oid24 ?data admin ?d = (Inr 3, insert_one 3 catB [prodQ] ?d)"
    using a v l by (simp add: add_homepage_section_def fits_int64_def store_def sec_def)
  have p: "distinct (positions ?d)" by (simp add: positions_def store_def sec_def)
  have q: "set (positions ?d) = {1, 2}" by (simp add: positions_def store_def sec_def)
  note t = add_position_is_max_plus_one[of oid24 ?data admin ?d 3 "insert_one 3 catB [prodQ] ?d"
      catB "[prodQ]" 1]
  from t[THEN conjunct1, rule_format, OF ok, THEN conjunct1]
       t[THEN conjunct2, THEN conjunct1, rule_format, OF conjI[OF a conjI[OF p conjI[OF q v]]]]
       t[THEN conjunct2, THEN conjunct2]
  show ?thesis by (intro conjI)
qed

section \<open>What the requests leave behind\<close>

lemma add_leaves:
  "snd (add_homepage_section ObjectId data tok d) = d \<or>
   (length (homepage_collection d) < 4 \<and>
    (\<exists>c p. snd (add_homepage_section ObjectId data tok d) =
       insert_one (if homepage_collection d = [] then 1 else Max (set (positions d)) + 1) c p d))"
proof (cases "add_homepage_section ObjectId data tok d")
  case (Pair r d')
  show ?thesis
  proof (cases r)
    case (Inl e)
    with Pair have "d' = d"
      by (auto simp: add_homepage_section_def Let_def split: if_splits sum.splits)
    with Pair show ?thesis by simp
  next
    case (Inr n)
    with Pair have ok: "add_homepage_section ObjectId data tok d = (Inr n, d')" by simp
    from add_Inr[OF ok] obtain c p where
      h: "\<not> no_requester tok" "length (homepage_collection d) < 4"
         "validate_refs ObjectId (add_category_id data) (add_product_ids data) d = Inr (c, p)"
      by blast
    from add_accepted[OF h] h(2) ok show ?thesis by (auto split: if_splits)
  qed
qed

lemma delete_leaves:
  "snd (delete_homepage_section sno tok d) = d \<or>
   snd (delete_homepage_section sno tok d) =
     d\<lparr>homepage_collection := snd (delete_one (\<lambda>x. s_no x = sno) (homepage_collection d))\<rparr>"
  by (auto simp: delete_homepage_section_def split: prod.splits)

lemma edit_leaves:
  assumes "distinct (map doc_id (homepage_collection d))"
  shows "snd (edit_homepage_section ObjectId sno data tok d) = d \<or>
   (\<exists>cur c p new.
      find_one (\<lambda>x. s_no x = sno) (homepage_collection d) = Some cur \<and>
      snd (edit_homepage_section ObjectId sno data tok d) =
        d\<lparr>homepage_collection :=
             map (\<lambda>x. if doc_id x = doc_id cur
                       then x\<lparr>category_id := c, products := p, s_no := new\<rparr>
                       else case find_one (\<lambda>y. s_no y = new) (homepage_collection d) of
                              Some oth \<Rightarrow> if doc_id x = doc_id oth then x\<lparr>s_no := sno\<rparr> else x
                            | None \<Rightarrow> x)
               (homepage_collection d)\<rparr>)"
proof (cases "no_requester tok")
  case True
  then show ?thesis by (simp add: edit_homepage_section_def)
next
  case auth: False
  show ?thesis
  proof (cases "validate_refs ObjectId (edit_category_id data) (edit_product_ids data) d")
    case (Inl e)
    with auth show ?thesis by (simp add: edit_homepage_section_def)
  next
    case (Inr v)
    obtain c p where v: "v = (c, p)" by (cases v)
    note val = Inr[unfolded v]
    show ?thesis
    proof (cases "find_one (\<lambda>x. s_no x = sno) (homepage_collection d)")
      case None
      with auth val show ?thesis by (simp add: edit_homepage_section_def)
    next
      case (Some cur)
      define new where "new = new_sno_of (edit_s_no data) sno"
      from Some have scur: "s_no cur = sno" by (auto dest: find_one_Some)
      have "snd (edit_homepage_section ObjectId sno data tok d) = d \<or>
            snd (edit_homepage_section ObjectId sno data tok d) =
        d\<lparr>homepage_collection :=
             map (\<lambda>x. if doc_id x = doc_id cur
                       then x\<lparr>category_id := c, products := p, s_no := new\<rparr>
                       else case find_one (\<lambda>y. s_no y = new) (homepage_collection d) of
                              Some oth \<Rightarrow> if doc_id x = doc_id oth then x\<lparr>s_no := sno\<rparr> else x
                            | None \<Rightarrow> x)
               (homepage_collection d)\<rparr>"
      proof (cases "new = sno")
        case True
        then have o: "find_one (\<lambda>y. s_no y = new) (homepage_collection d) = Some cur"
          using Some by simp
        have "map (\<lambda>x. if doc_id x = doc_id cur then x\<lparr>category_id := c, products := p\<rparr> else x)
                (homepage_collection d) =
              map (\<lambda>x. if doc_id x = doc_id cur
                       then x\<lparr>category_id := c, products := p, s_no := new\<rparr>
                       else case find_one (\<lambda>y. s_no y = new) (homepage_collection d) of
                              Some oth \<Rightarrow> if doc_id x = doc_id oth then x\<lparr>s_no := sno\<rparr> else x
                            | None \<Rightarrow> x) (homepage_collection d)"
        proof (rule map_cong[OF refl])
          fix x assume x: "x \<in> set (homepage_collection d)"
          from assms have "inj_on doc_id (set (homepage_collection d))" by (simp add: distinct_map)
          with x Some have "doc_id x = doc_id cur \<Longrightarrow> x = cur"
            by (auto dest: find_one_Some inj_onD)
          with scur True show "(if doc_id x = doc_id cur then x\<lparr>category_id := c, products := p\<rparr> else x) =
              (if doc_id x = doc_id cur
                       then x\<lparr>category_id := c, products := p, s_no := new\<rparr>
                       else case find_one (\<lambda>y. s_no y = new) (homepage_collection d) of
                              Some oth \<Rightarrow> if doc_id x = doc_id oth then x\<lparr>s_no := sno\<rparr> else x
                            | None \<Rightarrow> x)"
            unfolding o by auto
        qed
        with edit_same[OF auth val Some assms] True new_def show ?thesis by simp
      next
        case False
        show ?thesis
        proof (cases "find_one (\<lambda>y. s_no y = new) (homepage_collection d)")
          case None
          show ?thesis
          proof (cases "fits_int64 new")
            case True
            from edit_free[OF auth val Some assms new_def[symmetric] False None True] None
            show ?thesis by simp
          next
            case nofit: False
            from edit_found[OF auth val Some] nofit False None
            have "snd (edit_homepage_section ObjectId sno data tok d) = d"
              by (simp add: new_def)
            then show ?thesis ..
          qed
        next
          case (Some oth)
          from edit_swap[OF auth val \<open>find_one (\<lambda>x. s_no x = sno) (homepage_collection d) = Some cur\<close>
              assms new_def[symmetric] False Some] Some
          show ?thesis by simp
        qed
      qed
      with Some show ?thesis by blast
    qed
  qed
qed

lemma edit_keeps_ids:
  assumes "distinct (map doc_id (homepage_collection d))"
  shows "map doc_id (homepage_collection (snd (edit_homepage_section ObjectId sno data tok d))) =
           map doc_id (homepage_collection d) \<and>
         next_id (snd (edit_homepage_section ObjectId sno data tok d)) = next_id d"
  using edit_leaves[OF assms, of ObjectId sno data tok]
proof (elim disjE exE conjE)
  assume "snd (edit_homepage_section ObjectId sno data tok d) = d"
  then show ?thesis by simp
next
  fix cur :: section_doc and c :: oid and p :: "oid list" and new :: int
  assume e: "snd (edit_homepage_section ObjectId sno data tok d) =
        d\<lparr>homepage_collection :=
             map (\<lambda>x. if doc_id x = doc_id cur
                       then x\<lparr>category_id := c, products := p, s_no := new\<rparr>
                       else case find_one (\<lambda>y. s_no y = new) (homepage_collection d) of
                              Some oth \<Rightarrow> if doc_id x = doc_id oth then x\<lparr>s_no := sno\<rparr> else x
                            | None \<Rightarrow> x)
               (homepage_collection d)\<rparr>"
  have "map doc_id (map (\<lambda>x. if doc_id x = doc_id cur
                       then x\<lparr>category_id := c, products := p, s_no := new\<rparr>
                       else case find_one (\<lambda>y. s_no y = new) (homepage_collection d) of
                              Some oth \<Rightarrow> if doc_id x = doc_id oth then x\<lparr>s_no := sno\<rparr> else x
                            | None \<Rightarrow> x)
               (homepage_collection d)) = map doc_id (homepage_collection d)"
    by (rule map_keeps) (simp split: option.splits)
  then show ?thesis unfolding e by (simp del: map_map)
qed

lemma edit_keeps_distinct_positions:
  assumes ids: "distinct (map doc_id (homepage_collection d))"
    and pos: "distinct (positions d)"
  shows "distinct (positions (snd (edit_homepage_section ObjectId sno data tok d)))"
  using edit_leaves[OF ids, of ObjectId sno data tok]
proof (elim disjE exE conjE)
  assume "snd (edit_homepage_section ObjectId sno data tok d) = d"
  with pos show ?thesis by simp
next
  fix cur :: section_doc and c :: oid and p :: "oid list" and new :: int
  let ?hc = "homepage_collection d"
  let ?g = "\<lambda>x. if doc_id x = doc_id cur
                       then x\<lparr>category_id := c, products := p, s_no := new\<rparr>
                       else case find_one (\<lambda>y. s_no y = new) ?hc of
                              Some oth \<Rightarrow> if doc_id x = doc_id oth then x\<lparr>s_no := sno\<rparr> else x
                            | None \<Rightarrow> x"
  assume cur: "find_one (\<lambda>x. s_no x = sno) ?hc = Some cur"
    and e: "snd (edit_homepage_section ObjectId sno data tok d) =
        d\<lparr>homepage_collection := map ?g ?hc\<rparr>"
  from ids have ii: "inj_on doc_id (set ?hc)" by (simp add: distinct_map)
  from pos have dh: "distinct ?hc" and ip: "inj_on s_no (set ?hc)"
    by (simp_all add: positions_def distinct_map)
  from cur have cm: "cur \<in> set ?hc" and cs: "s_no cur = sno" by (auto dest: find_one_Some)
  have "inj_on (\<lambda>x. s_no (?g x)) (set ?hc)"
  proof (cases "find_one (\<lambda>y. s_no y = new) ?hc")
    case None
    then have free: "\<forall>z\<in>set ?hc. s_no z \<noteq> new" by (simp add: find_one_None)
    show ?thesis
    proof (rule inj_onI)
      fix x y assume x: "x \<in> set ?hc" and y: "y \<in> set ?hc"
        and eq: "s_no (?g x) = s_no (?g y)"
      from ii x y cm have dx: "doc_id x = doc_id cur \<longleftrightarrow> x = cur"
        and dy: "doc_id y = doc_id cur \<longleftrightarrow> y = cur" by (auto dest: inj_onD)
      have gx: "s_no (?g x) = (if x = cur then new else s_no x)"
        and gy: "s_no (?g y) = (if y = cur then new else s_no y)"
        using dx dy None by simp_all
      from eq[unfolded gx gy] free x y ip show "x = y"
        by (auto split: if_splits dest: inj_onD)
    qed
  next
    case (Some oth)
    then have om: "oth \<in> set ?hc" and os: "s_no oth = new" by (auto dest: find_one_Some)
    show ?thesis
    proof (rule inj_onI)
      fix x y assume x: "x \<in> set ?hc" and y: "y \<in> set ?hc"
        and eq: "s_no (?g x) = s_no (?g y)"
      from ii x y cm om have dx: "doc_id x = doc_id cur \<longleftrightarrow> x = cur"
        and dy: "doc_id y = doc_id cur \<longleftrightarrow> y = cur"
        and ox: "doc_id x = doc_id oth \<longleftrightarrow> x = oth"
        and oy: "doc_id y = doc_id oth \<longleftrightarrow> y = oth" by (auto dest: inj_onD)
      from ip x y cm om cs os have sx: "s_no x = sno \<longleftrightarrow> x = cur" "s_no x = new \<longleftrightarrow> x = oth"
        and sy: "s_no y = sno \<longleftrightarrow> y = cur" "s_no y = new \<longleftrightarrow> y = oth"
        by (auto dest: inj_onD)
      have gx: "s_no (?g x) = (if x = cur then new else if x = oth then sno else s_no x)"
        and gy: "s_no (?g y) = (if y = cur then new else if y = oth then sno else s_no y)"
        using dx dy ox oy Some by simp_all
      from eq[unfolded gx gy] sx sy ip x y show "x = y"
        by (auto split: if_splits dest: inj_onD)
    qed
  qed
  with dh have "distinct (map (\<lambda>x. s_no (?g x)) ?hc)" by (simp add: distinct_map)
  then have "distinct (map s_no (map ?g ?hc))" by (simp only: map_map comp_def)
  then show ?thesis unfolding e positions_def by (simp del: map_map)
qed

section \<open>Invariants of the collection\<close>

lemma ids_ok_iff:
  "ids_ok d \<longleftrightarrow> distinct (map doc_id (homepage_collection d)) \<and>
                (\<forall>i\<in>set (map doc_id (homepage_collection d)). i < next_id d)"
  by (auto simp: ids_ok_def list_all_iff)

lemma serve_keeps_ids:
  assumes "ids_ok d"
  shows "ids_ok (serve ObjectId tok r d)"
proof (cases r)
  case (Add data)
  from add_leaves[of ObjectId data tok d] assms show ?thesis
    unfolding Add by (fastforce simp: ids_ok_iff insert_one_def less_Suc_eq)
next
  case (Edit sno data)
  from assms have "distinct (map doc_id (homepage_collection d))" by (simp add: ids_ok_iff)
  from edit_keeps_ids[OF this, of ObjectId sno data tok] assms show ?thesis
    unfolding Edit ids_ok_iff by simp
next
  case (Delete sno)
  obtain n ds' where e: "delete_one (\<lambda>x. s_no x = sno) (homepage_collection d) = (n, ds')"
    by (cases "delete_one (\<lambda>x. s_no x = sno) (homepage_collection d)")
  from delete_one_len[OF e] delete_one_distinct[OF e, of doc_id] assms
  have "ids_ok (d\<lparr>homepage_collection := ds'\<rparr>)"
    by (auto simp: ids_ok_iff)
  with delete_leaves[of sno tok d] assms e show ?thesis unfolding Delete by auto
qed

lemma serve_keeps_distinct_positions:
  assumes "ids_ok d" "distinct (positions d)"
  shows "distinct (positions (serve ObjectId tok r d))"
proof (cases r)
  case (Add data)
  have fresh: "homepage_collection d \<noteq> [] \<Longrightarrow> Max (set (positions d)) + 1 \<notin> set (positions d)"
  proof
    assume "Max (set (positions d)) + 1 \<in> set (positions d)"
    then have "Max (set (positions d)) + 1 \<le> Max (set (positions d))" by (intro Max_ge) auto
    then show False by simp
  qed
  from add_leaves[of ObjectId data tok d] show ?thesis
  proof (elim disjE exE conjE)
    assume "snd (add_homepage_section ObjectId data tok d) = d"
    with assms(2) show ?thesis unfolding Add by simp
  next
    fix c p
    assume e: "snd (add_homepage_section ObjectId data tok d) =
       insert_one (if homepage_collection d = [] then 1 else Max (set (positions d)) + 1) c p d"
    show ?thesis
    proof (cases "homepage_collection d = []")
      case True
      with e show ?thesis unfolding Add by (simp add: insert_one_def positions_def)
    next
      case False
      with fresh assms(2) e show ?thesis unfolding Add
        by (simp add: insert_one_def positions_def)
    qed
  qed
next
  case (Edit sno data)
  from assms(1) have "distinct (map doc_id (homepage_collection d))" by (simp add: ids_ok_iff)
  from edit_keeps_distinct_positions[OF this assms(2)] show ?thesis unfolding Edit by simp
next
  case (Delete sno)
  obtain n ds' where e: "delete_one (\<lambda>x. s_no x = sno) (homepage_collection d) = (n, ds')"
    by (cases "delete_one (\<lambda>x. s_no x = sno) (homepage_collection d)")
  from delete_one_distinct[OF e, of s_no] assms(2)
  have "distinct (positions (d\<lparr>homepage_collection := ds'\<rparr>))"
    by (simp add: positions_def)
  with delete_leaves[of sno tok d] assms(2) e show ?thesis unfolding Delete by auto
qed

lemma serve_keeps_capacity:
  assumes "length (homepage_collection d) \<le> 4"
  shows "length (homepage_collection (serve ObjectId tok r d)) \<le> 4"
proof (cases r)
  case (Add data)
  from add_leaves[of ObjectId data tok d] assms show ?thesis
    unfolding Add by (auto simp: insert_one_def)
next
  case (Edit sno data)
  have "length (homepage_collection (snd (edit_homepage_section ObjectId sno data tok d))) =
        length (homepage_collection d)"
    by (simp add: edit_homepage_section_def Let_def update_one_length swap_step1_def
        swap_step3_def set_fields_def set_fields_and_s_no_def
        split: sum.splits option.splits prod.splits)
  with assms show ?thesis unfolding Edit by simp
next
  case (Delete sno)
  obtain n ds' where e: "delete_one (\<lambda>x. s_no x = sno) (homepage_collection d) = (n, ds')"
    by (cases "delete_one (\<lambda>x. s_no x = sno) (homepage_collection d)")
  from delete_one_len[OF e] delete_leaves[of sno tok d] assms e show ?thesis
    unfolding Delete by auto
qed

lemma serve_all_invariant:
  assumes "\<And>d r. P d \<Longrightarrow> P (serve ObjectId tok r d)" and "P d"
  shows "P (serve_all ObjectId tok rs d)"
  using assms(2) by (induction rs arbitrary: d) (auto intro: assms(1))

lemma length_listings:
  "length (public_homepage d) = length (homepage_collection d)"
  "list_homepage_sections tok d = Inr vs \<Longrightarrow> length vs = length (homepage_collection d)"
  by (auto simp: public_homepage_def list_homepage_sections_def find_sorted_def split: if_splits)

text \<open>
  C1. Starting from a store whose sections hold pairwise distinct positions, after
  every request of any sequence of add, edit and delete requests (that is, after
  every prefix of the sequence) the stored positions are pairwise distinct, whatever
  the requests carry, any requested position of an edit included. The store's own
  guarantee that \<open>_id\<close> values are unique is assumed of the starting store.
\<close>

theorem positions_stay_distinct:
  assumes "ids_ok d" and "distinct (positions d)"
  shows "distinct (positions (serve_all ObjectId tok (take n rs) d))"
proof -
  have "ids_ok (serve_all ObjectId tok (take n rs) d) \<and>
        distinct (positions (serve_all ObjectId tok (take n rs) d))"
    by (rule serve_all_invariant[where P = "\<lambda>d. ids_ok d \<and> distinct (positions d)"])
       (simp_all add: assms serve_keeps_ids serve_keeps_distinct_positions)
  then show ?thesis ..
qed

theorem positions_stay_distinct_witness:
  "distinct (positions (serve_all oid24 admin
             [Edit 1 \<lparr>edit_category_id = catB, edit_product_ids = [prodQ], edit_s_no = Some 3\<rparr>,
              Delete 2,
              Add \<lparr>add_category_id = catB, add_product_ids = [prodQ]\<rparr>,
              Edit 1 \<lparr>edit_category_id = catA, edit_product_ids = [prodP], edit_s_no = Some (- 1)\<rparr>]
             (store [sec 0 1, sec 1 2, sec 2 3])))"
proof -
  have i: "ids_ok (store [sec 0 1, sec 1 2, sec 2 3])" by (simp add: ids_ok_def store_def sec_def)
  have p: "distinct (positions (store [sec 0 1, sec 1 2, sec 2 3]))"
    by (simp add: positions_def store_def sec_def)
  from positions_stay_distinct[OF i p, of oid24 admin 4
      "[Edit 1 \<lparr>edit_category_id = catB, edit_product_ids = [prodQ], edit_s_no = Some 3\<rparr>,
        Delete 2,
        Add \<lparr>add_category_id = catB, add_product_ids = [prodQ]\<rparr>,
        Edit 1 \<lparr>edit_category_id = catA, edit_product_ids = [prodP], edit_s_no = Some (- 1)\<rparr>]"]
  show ?thesis by simp
qed

text \<open>
  C7. Starting from a store of at most four sections, after every request of any
  sequence of add, edit and delete requests the store holds at most four sections,
  and neither listing has more than four entries.
\<close>

theorem at_most_four_sections:
  assumes "length (homepage_collection d) \<le> 4"
  shows "length (homepage_collection (serve_all ObjectId tok (take n rs) d)) \<le> 4
       \<and> length (public_homepage (serve_all ObjectId tok (take n rs) d)) \<le> 4
       \<and> (\<forall>vs. list_homepage_sections tok' (serve_all ObjectId tok (take n rs) d) = Inr vs
             \<longrightarrow> length vs \<le> 4)"
proof -
  have "length (homepage_collection (serve_all ObjectId tok (take n rs) d)) \<le> 4"
    by (rule serve_all_invariant[where P = "\<lambda>d. length (homepage_collection d) \<le> 4"])
       (simp_all add: assms serve_keeps_capacity)
  then show ?thesis by (auto simp: length_listings)
qed

theorem at_most_four_sections_witness:
  "length (homepage_collection
      (serve_all oid24 admin [Add \<lparr>add_category_id = catB, add_product_ids = [prodQ]\<rparr>]
         (store [sec 0 1, sec 1 2, sec 2 3, sec 3 4]))) \<le> 4
   \<and> (\<exists>vs. list_homepage_sections admin
          (serve_all oid24 admin [Add \<lparr>add_category_id = catB, add_product_ids = [prodQ]\<rparr>]
             (store [sec 0 1, sec 1 2, sec 2 3, sec 3 4])) = Inr vs \<and> length vs \<le> 4)"
proof -
  let ?d = "store [sec 0 1, sec 1 2, sec 2 3, sec 3 4]"
  let ?rs = "[Add \<lparr>add_category_id = catB, add_product_ids = [prodQ]\<rparr>]"
  have h: "length (homepage_collection ?d) \<le> 4" by (simp add: store_def)
  have t: "take 1 ?rs = ?rs" by simp
  note th = at_most_four_sections[OF h, of oid24 admin 1 ?rs admin, unfolded t]
  have a: "\<not> no_requester admin" by (simp add: no_requester_def admin_def)
  then have l: "list_homepage_sections admin (serve_all oid24 admin ?rs ?d) =
      Inr (map (format_section (serve_all oid24 admin ?rs ?d))
             (find_sorted (homepage_collection (serve_all oid24 admin ?rs ?d))))"
    by (simp add: list_homepage_sections_def)
  from th[THEN conjunct2, THEN conjunct2, rule_format, OF l] l th[THEN conjunct1]
  show ?thesis by blast
qed

section \<open>The listings\<close>

lemma map_insort_key: "map f (insort_key f x xs) = insort (f x) (map f xs)"
  by (induction xs) auto

lemma map_sort_key: "map f (sort_key f xs) = sort (map f xs)"
  by (induction xs) (auto simp: map_insort_key)

lemma listed_positions:
  "map v_s_no (map (format_section d) ds) = map s_no ds"
  "map v_s_no (map (public_format_section d) ds) = map s_no ds"
  by (simp_all add: format_section_def public_format_section_def comp_def)

text \<open>
  C3, as stated: no listing contains a section whose position is the value \<open>-1\<close>
  that the swap parks a section at. The statement fails. In the store left by the
  first write of a swap of positions 1 and 2, and equally in the store left by a
  completed edit that asks for position \<open>-1\<close>, both listings show the section at
  \<open>-1\<close>, as their first entry.
\<close>

theorem listing_shows_sentinel_counterexample:
  "map v_s_no (public_homepage (store (swap_step1 (sec 1 2) [sec 0 1, sec 1 2]))) = [- 1, 1]
   \<and> list_homepage_sections admin (store (swap_step1 (sec 1 2) [sec 0 1, sec 1 2])) =
       Inr [\<lparr>v_s_no = - 1, v_category_id = catA, v_category_name = ''Rings'',
              v_products = [\<lparr>pv_id = prodP, pv_name = ''Band'', pv_display_image = None\<rparr>]\<rparr>,
            \<lparr>v_s_no = 1, v_category_id = catA, v_category_name = ''Rings'',
              v_products = [\<lparr>pv_id = prodP, pv_name = ''Band'', pv_display_image = None\<rparr>]\<rparr>]
   \<and> map v_s_no (public_homepage (snd (edit_homepage_section oid24 2
          \<lparr>edit_category_id = catA, edit_product_ids = [prodP], edit_s_no = Some (- 1)\<rparr>
          admin (store [sec 0 1, sec 1 2])))) = [- 1, 1]"
  by code_simp

text \<open>
  C3, amended: both listings have one entry for every stored section, in ascending
  order of the stored positions, and each entry carries the stored position; no
  section is left out because of its position, a section at \<open>-1\<close> included.
\<close>

theorem listing_shows_every_position:
  "map v_s_no (public_homepage d) = sort (positions d)
   \<and> (\<forall>vs. list_homepage_sections tok d = Inr vs \<longrightarrow> map v_s_no vs = sort (positions d))"
proof (intro conjI allI impI)
  show "map v_s_no (public_homepage d) = sort (positions d)"
    unfolding public_homepage_def find_sorted_def positions_def listed_positions
    by (rule map_sort_key)
next
  fix vs assume "list_homepage_sections tok d = Inr vs"
  then have "vs = map (format_section d) (find_sorted (homepage_collection d))"
    by (auto simp: list_homepage_sections_def split: if_splits)
  then show "map v_s_no vs = sort (positions d)"
    unfolding find_sorted_def positions_def by (simp only: listed_positions map_sort_key)
qed

theorem listing_shows_every_position_witness:
  "map v_s_no (public_homepage (store [sec 0 2, sec 1 (- 1)])) = [- 1, 2]
   \<and> (\<exists>vs. list_homepage_sections admin (store [sec 0 2, sec 1 (- 1)]) = Inr vs \<and>
             map v_s_no vs = [- 1, 2])"
proof -
  let ?d = "store [sec 0 2, sec 1 (- 1)]"
  have a: "\<not> no_requester admin" by (simp add: no_requester_def admin_def)
  then have l: "list_homepage_sections admin ?d =
      Inr (map (format_section ?d) (find_sorted (homepage_collection ?d)))"
    by (simp add: list_homepage_sections_def)
  have s: "sort (positions ?d) = [- 1, 2]" by (simp add: positions_def store_def sec_def)
  note t = listing_shows_every_position[of ?d admin, unfolded s]
  from l t[THEN conjunct2, rule_format, OF l]
  have "list_homepage_sections admin ?d =
          Inr (map (format_section ?d) (find_sorted (homepage_collection ?d))) \<and>
        map v_s_no (map (format_section ?d) (find_sorted (homepage_collection ?d))) = [- 1, 2]"
    by (rule conjI)
  then have "\<exists>vs. list_homepage_sections admin ?d = Inr vs \<and> map v_s_no vs = [- 1, 2]"
    by (rule exI)
  with t[THEN conjunct1] show ?thesis by (rule conjI)
qed

text \<open>
  C6, as stated: a reference that no longer resolves is shown in the listing with a
  placeholder name. The statement fails for products: a section that refers to the
  stored product \<open>prodP\<close> and to the missing product \<open>prodQ\<close> is listed with the one
  entry for \<open>prodP\<close>, and nothing stands for \<open>prodQ\<close>.
\<close>

theorem listing_drops_missing_product_counterexample:
  "list_homepage_sections admin
     (store [\<lparr>doc_id = 0, s_no = 1, category_id = catA, products = [prodP, prodQ]\<rparr>]) =
   Inr [\<lparr>v_s_no = 1, v_category_id = catA, v_category_name = ''Rings'',
          v_products = [\<lparr>pv_id = prodP, pv_name = ''Band'', pv_display_image = None\<rparr>]\<rparr>]"
  by code_simp

lemma category_name_missing:
  "cid \<notin> cat_oid ` set cs \<Longrightarrow> category_name_of cid cs = ''N/A''"
proof -
  assume "cid \<notin> cat_oid ` set cs"
  then have "find_one (\<lambda>c. cat_oid c = cid) cs = None" by (auto simp: find_one_None)
  then show ?thesis by (simp add: category_name_of_def)
qed

lemma find_sorted_perm:
  "mset (find_sorted ds) = mset ds \<and> sorted (map s_no (find_sorted ds))"
  by (simp add: find_sorted_def)

lemma format_section_fields:
  "v_s_no (format_section d doc) = s_no doc"
  "v_category_id (format_section d doc) = category_id doc"
  "category_id doc \<notin> cat_oid ` set (category_collection d) \<Longrightarrow>
     v_category_name (format_section d doc) = ''N/A''"
  "v_products (format_section d doc) =
     map (\<lambda>p. \<lparr>pv_id = prod_oid p, pv_name = prod_name p, pv_display_image = display_image p\<rparr>)
       (filter (\<lambda>p. prod_oid p \<in> set (products doc)) (product_collection d))"
  by (simp_all add: format_section_def find_in_def category_name_missing)

lemma format_section_category:
  "find_one (\<lambda>c. cat_oid c = category_id doc) (category_collection d) = Some cat \<Longrightarrow>
     v_category_name (format_section d doc) = cat_name cat"
  by (simp add: format_section_def category_name_of_def)

text \<open>
  C6, amended: for an authenticated requester the listing succeeds whatever the
  sections refer to. Its entries stand, one for one and in the same order, for the
  stored sections sorted by position, so every stored section is listed. The entry of
  a section whose category is not in the category collection has the category name
  \<open>N/A\<close>. The products of an entry are the stored products whose identifier the
  section refers to, in the order of the product collection: a product reference that
  does not resolve is left out, without a placeholder.
\<close>

theorem listing_with_dangling_references:
  assumes "\<not> no_requester tok"
  shows "\<exists>vs. list_homepage_sections tok d = Inr vs
       \<and> mset (find_sorted (homepage_collection d)) = mset (homepage_collection d)
       \<and> sorted (map s_no (find_sorted (homepage_collection d)))
       \<and> list_all2
           (\<lambda>v doc. v_s_no v = s_no doc \<and> v_category_id v = category_id doc
              \<and> (category_id doc \<notin> cat_oid ` set (category_collection d)
                   \<longrightarrow> v_category_name v = ''N/A'')
              \<and> (\<forall>cat. find_one (\<lambda>c. cat_oid c = category_id doc) (category_collection d)
                          = Some cat \<longrightarrow> v_category_name v = cat_name cat)
              \<and> v_products v =
                  map (\<lambda>p. \<lparr>pv_id = prod_oid p, pv_name = prod_name p,
                            pv_display_image = display_image p\<rparr>)
                    (filter (\<lambda>p. prod_oid p \<in> set (products doc)) (product_collection d)))
           vs (find_sorted (homepage_collection d))"
proof -
  let ?ds = "find_sorted (homepage_collection d)"
  let ?vs = "map (format_section d) ?ds"
  from assms have l: "list_homepage_sections tok d = Inr ?vs"
    by (simp add: list_homepage_sections_def)
  have r: "list_all2
           (\<lambda>v doc. v_s_no v = s_no doc \<and> v_category_id v = category_id doc
              \<and> (category_id doc \<notin> cat_oid ` set (category_collection d)
                   \<longrightarrow> v_category_name v = ''N/A'')
              \<and> (\<forall>cat. find_one (\<lambda>c. cat_oid c = category_id doc) (category_collection d)
                          = Some cat \<longrightarrow> v_category_name v = cat_name cat)
              \<and> v_products v =
                  map (\<lambda>p. \<lparr>pv_id = prod_oid p, pv_name = prod_name p,
                            pv_display_image = display_image p\<rparr>)
                    (filter (\<lambda>p. prod_oid p \<in> set (products doc)) (product_collection d)))
           ?vs ?ds"
    by (simp add: list_all2_map1 list.rel_refl_strong format_section_fields
        format_section_category)
  from l find_sorted_perm[of "homepage_collection d"] r show ?thesis
    by (intro exI[of _ ?vs] conjI) simp_all
qed

theorem listing_with_dangling_references_witness:
  "\<exists>v1 v2. list_homepage_sections admin
          (store [sec 0 2,
                  \<lparr>doc_id = 1, s_no = 1, category_id = ''cccccccccccccccccccccccc'',
                   products = [prodP, prodQ]\<rparr>]) = Inr [v1, v2]
       \<and> v_s_no v1 = 1 \<and> v_category_name v1 = ''N/A''
       \<and> map pv_id (v_products v1) = [prodP]
       \<and> v_s_no v2 = 2 \<and> v_category_name v2 = ''Rings''"
proof -
  let ?doc = "\<lparr>doc_id = 1, s_no = 1, category_id = ''cccccccccccccccccccccccc'',
                products = [prodP, prodQ]\<rparr>"
  let ?d = "store [sec 0 2, ?doc]"
  have a: "\<not> no_requester admin" by (simp add: no_requester_def admin_def)
  have fs: "find_sorted (homepage_collection ?d) = [?doc, sec 0 2]"
    by (simp add: find_sorted_def store_def sec_def)
  have c: "category_id ?doc \<notin> cat_oid ` set (category_collection ?d)"
    by (simp add: store_def catA_def catB_def)
  have p: "map pv_id (map (\<lambda>p. \<lparr>pv_id = prod_oid p, pv_name = prod_name p,
                                  pv_display_image = display_image p\<rparr>)
              (filter (\<lambda>p. prod_oid p \<in> set (products ?doc)) (product_collection ?d)))
            = [prodP]"
    by (simp add: store_def prodP_def prodQ_def)
  have g: "find_one (\<lambda>c. cat_oid c = category_id (sec 0 2)) (category_collection ?d)
            = Some \<lparr>cat_oid = catA, cat_name = ''Rings''\<rparr>"
    by (simp add: find_one_def store_def sec_def)
  from listing_with_dangling_references[OF a, of ?d] obtain vs where
    l: "list_homepage_sections admin ?d = Inr vs"
    and r: "list_all2
           (\<lambda>v doc. v_s_no v = s_no doc \<and> v_category_id v = category_id doc
              \<and> (category_id doc \<notin> cat_oid ` set (category_collection ?d)
                   \<longrightarrow> v_category_name v = ''N/A'')
              \<and> (\<forall>cat. find_one (\<lambda>c. cat_oid c = category_id doc) (category_collection ?d)
                          = Some cat \<longrightarrow> v_category_name v = cat_name cat)
              \<and> v_products v =
                  map (\<lambda>p. \<lparr>pv_id = prod_oid p, pv_name = prod_name p,
                            pv_display_image = display_image p\<rparr>)
                    (filter (\<lambda>p. prod_oid p \<in> set (products doc)) (product_collection ?d)))
           vs (find_sorted (homepage_collection ?d))"
    by (elim exE conjE)
  from r[unfolded fs] obtain v1 v2 where vs: "vs = [v1, v2]"
    and r1: "v_s_no v1 = s_no ?doc"
            "category_id ?doc \<notin> cat_oid ` set (category_collection ?d)
               \<longrightarrow> v_category_name v1 = ''N/A''"
            "v_products v1 =
               map (\<lambda>p. \<lparr>pv_id = prod_oid p, pv_name = prod_name p,
                         pv_display_image = display_image p\<rparr>)
                 (filter (\<lambda>p. prod_oid p \<in> set (products ?doc)) (product_collection ?d))"
    and r2: "v_s_no v2 = s_no (sec 0 2)"
            "\<forall>cat. find_one (\<lambda>c. cat_oid c = category_id (sec 0 2)) (category_collection ?d)
                     = Some cat \<longrightarrow> v_category_name v2 = cat_name cat"
    by (auto simp: list_all2_Cons2)
  from r1 c p have "v_s_no v1 = 1" "v_category_name v1 = ''N/A''"
    "map pv_id (v_products v1) = [prodP]" by simp_all
  moreover from r2(1) have "v_s_no v2 = 2" by (simp add: sec_def)
  moreover from r2(2) g have "v_category_name v2 = ''Rings''" by simp
  ultimately show ?thesis using l[unfolded vs] by (intro exI[of _ v1] exI[of _ v2] conjI)
qed

end
